theory Spec2Isabelle
  imports Complex_Main "HOL-Library.Sublist"
begin

section \<open>JavaScript values shared by the server agent and the client decoder\<close>

text \<open>
  Strings are lists of code units; the code units are HOL characters, so the model covers
  the code units below 256.  JavaScript numbers are modelled by the reals they denote.
  An awaited call to an external service either throws or returns.
\<close>

datatype 'a outcome = Throws | Returns 'a

definition is_js_space :: "char \<Rightarrow> bool" where
  "is_js_space c \<longleftrightarrow> c \<in> {CHR 0x09, CHR 0x0A, CHR 0x0B, CHR 0x0C, CHR 0x0D, CHR 0x20, CHR 0xA0}"

text \<open>\<^verbatim>\<open>String.prototype.trim\<close>: white space and line terminators go from both ends.\<close>

definition trim :: "string \<Rightarrow> string" where
  "trim s = rev (dropWhile is_js_space (rev (dropWhile is_js_space s)))"

text \<open>\<^verbatim>\<open>estimateTokens\<close> (rag.ts 62-64): \<^verbatim>\<open>Math.ceil(text.length / 4)\<close>.\<close>

definition estimateTokens :: "string \<Rightarrow> nat" where
  "estimateTokens text = (length text + 3) div 4"

section \<open>Token management constants (rag.ts 17-23)\<close>

definition PINECONE_TOKEN_LIMIT :: nat where "PINECONE_TOKEN_LIMIT = 3000"
definition MIN_HISTORY_MESSAGES :: nat where "MIN_HISTORY_MESSAGES = 3"

section \<open>Knowledge retrieval: \<^verbatim>\<open>retrieveFromPinecone\<close> (rag.ts 106-154)\<close>

text \<open>
  A match of the vector store.  The score is optional in the store's client type; the
  metadata fields read by the code are taken to be strings when present.
\<close>

record pinecone_metadata =
  md_text :: "string option"
  md_content :: "string option"
  md_source :: "string option"

record pinecone_match =
  score :: "real option"
  metadata :: "pinecone_metadata option"

text \<open>\<^verbatim>\<open>a || b\<close> on optional strings: the empty string and \<^verbatim>\<open>undefined\<close> are falsy.\<close>

definition str_or :: "string option \<Rightarrow> string \<Rightarrow> string" where
  "str_or a b = (case a of None \<Rightarrow> b | Some s \<Rightarrow> if s = [] then b else s)"

text \<open>\<^verbatim>\<open>match.score && match.score < 0.7\<close>: an absent score and the score 0 are falsy.\<close>

definition low_relevance :: "pinecone_match \<Rightarrow> bool" where
  "low_relevance m = (case score m of None \<Rightarrow> False | Some s \<Rightarrow> s \<noteq> 0 \<and> s < 0.7)"

definition match_content :: "pinecone_match \<Rightarrow> string" where
  "match_content m =
     (case metadata m of None \<Rightarrow> []
      | Some md \<Rightarrow> str_or (md_text md) (str_or (md_content md) []))"

definition match_source :: "pinecone_match \<Rightarrow> string" where
  "match_source m =
     (case metadata m of None \<Rightarrow> ''Medical Database''
      | Some md \<Rightarrow> str_or (md_source md) ''Medical Database'')"

definition snippet_of :: "pinecone_match \<Rightarrow> string" where
  "snippet_of m = ''[Source: '' @ match_source m @ '']\<newline>'' @ match_content m @ ''\<newline>''"

text \<open>
  The \<^verbatim>\<open>for ... of\<close> loop over the matches, with its two accumulators
  \<^verbatim>\<open>contextText\<close> and \<^verbatim>\<open>currentTokens\<close>; \<^verbatim>\<open>continue\<close> goes on with the
  rest, \<^verbatim>\<open>break\<close> returns the accumulators.
\<close>

fun retrieve_loop :: "pinecone_match list \<Rightarrow> string \<Rightarrow> nat \<Rightarrow> string \<times> nat" where
  "retrieve_loop [] contextText currentTokens = (contextText, currentTokens)"
| "retrieve_loop (m # ms) contextText currentTokens =
     (if low_relevance m then retrieve_loop ms contextText currentTokens
      else if match_content m = [] then retrieve_loop ms contextText currentTokens
      else if currentTokens + estimateTokens (snippet_of m) > PINECONE_TOKEN_LIMIT
        then (contextText, currentTokens)
      else retrieve_loop ms (contextText @ snippet_of m @ ''\<newline>'')
             (currentTokens + estimateTokens (snippet_of m)))"

text \<open>
  The argument is what the vector store answered to the query (the query text is used
  for nothing else): the call throws, or returns a response whose \<^verbatim>\<open>matches\<close> may be
  absent.
\<close>

definition retrieveFromPinecone :: "pinecone_match list option outcome \<Rightarrow> string" where
  "retrieveFromPinecone response =
     (case response of
        Throws \<Rightarrow> []
      | Returns None \<Rightarrow> []
      | Returns (Some matches) \<Rightarrow>
          if matches = [] then [] else trim (fst (retrieve_loop matches [] 0)))"

text \<open>
  The matches whose snippet the loop appends, in order, when it starts with
  \<^verbatim>\<open>currentTokens = n\<close>: a reading of the loop used to state what the text is made of.
\<close>

fun accepted_matches :: "pinecone_match list \<Rightarrow> nat \<Rightarrow> pinecone_match list" where
  "accepted_matches [] n = []"
| "accepted_matches (m # ms) n =
     (if low_relevance m then accepted_matches ms n
      else if match_content m = [] then accepted_matches ms n
      else if n + estimateTokens (snippet_of m) > PINECONE_TOKEN_LIMIT then []
      else m # accepted_matches ms (n + estimateTokens (snippet_of m)))"

section \<open>Context budget (rag.ts 459-464)\<close>



section \<open>JSON values and \<^verbatim>\<open>JSON.parse\<close>\<close>

text \<open>
  What \<^verbatim>\<open>JSON.parse\<close> returns.  The parser is a built-in of the language and is a
  parameter \<open>jp\<close> of every function that calls it: \<open>jp s = None\<close> when
  \<^verbatim>\<open>JSON.parse(s)\<close> throws.  An object keeps its members in source order; a repeated
  key reads as its last occurrence.
\<close>

datatype json = JNull | JBool bool | JNum real | JStr string | JArr "json list"
  | JObj "(string \<times> json) list"

type_synonym json_parser = "string \<Rightarrow> json option"

text \<open>
  Reading a property \<^verbatim>\<open>v.k\<close> of a parsed value, for the keys the code reads
  (\<^verbatim>\<open>text\<close>, \<^verbatim>\<open>lang\<close>, \<^verbatim>\<open>query\<close>), none of which is a built-in property:
  on \<^verbatim>\<open>null\<close> it throws a TypeError, on an object it is the member or
  \<^verbatim>\<open>undefined\<close>, on anything else \<^verbatim>\<open>undefined\<close>.
\<close>

datatype property = PropThrows | PropUndefined | PropValue json

fun get_prop :: "json \<Rightarrow> string \<Rightarrow> property" where
  "get_prop JNull k = PropThrows"
| "get_prop (JObj kvs) k = (case map_of (rev kvs) k of None \<Rightarrow> PropUndefined | Some v \<Rightarrow> PropValue v)"
| "get_prop (JBool b) k = PropUndefined"
| "get_prop (JNum n) k = PropUndefined"
| "get_prop (JStr s) k = PropUndefined"
| "get_prop (JArr vs) k = PropUndefined"

fun truthy :: "json \<Rightarrow> bool" where
  "truthy JNull = False"
| "truthy (JBool b) = b"
| "truthy (JNum n) = (n \<noteq> 0)"
| "truthy (JStr s) = (s \<noteq> [])"
| "truthy (JArr vs) = True"
| "truthy (JObj kvs) = True"

section \<open>History assembly: \<^verbatim>\<open>getConversationHistory\<close> (rag.ts 198-251)\<close>

record channel_message =
  msg_text :: "string option"
  msg_ai_generated :: bool

record turn =
  role :: string
  content :: string

text \<open>
  Lines 220-226: \<^verbatim>\<open>messageText\<close> after the inner \<^verbatim>\<open>try\<close>.  The inner \<^verbatim>\<open>catch\<close>
  swallows the SyntaxError of the parser and the TypeError of \<^verbatim>\<open>null.text\<close>;
  \<^verbatim>\<open>parsed.text || msg.text\<close> may leave a value that is not a string.
\<close>

definition decode_message_text :: "json_parser \<Rightarrow> string \<Rightarrow> json" where
  "decode_message_text jp t =
     (case jp t of
        None \<Rightarrow> JStr t
      | Some parsed \<Rightarrow>
          (case get_prop parsed ''text'' of
             PropThrows \<Rightarrow> JStr t
           | PropUndefined \<Rightarrow> JStr t
           | PropValue v \<Rightarrow> if truthy v then v else JStr t))"

text \<open>
  What one iteration does with a message before the budget is looked at: \<^verbatim>\<open>continue\<close>
  (lines 218 and 228), a TypeError at \<^verbatim>\<open>messageText.trim()\<close> when the decoded text
  is not a string (it leaves the loop for the outer \<^verbatim>\<open>catch\<close>), or the turn that
  would be kept.
\<close>

datatype step = Skip | Fail | Keep turn

definition classify :: "json_parser \<Rightarrow> channel_message \<Rightarrow> step" where
  "classify jp msg =
     (case msg_text msg of
        None \<Rightarrow> Skip
      | Some t \<Rightarrow>
          if t = [] then Skip
          else (case decode_message_text jp t of
                  JStr messageText \<Rightarrow>
                    if messageText = [] \<or> trim messageText = [] then Skip
                    else Keep \<lparr>role = (if msg_ai_generated msg then ''assistant'' else ''user''),
                               content = messageText\<rparr>
                | v \<Rightarrow> if truthy v then Fail else Skip))"

text \<open>
  The loop of lines 216-243 over the messages from the newest to the oldest, with the
  accumulators \<^verbatim>\<open>history\<close> and \<^verbatim>\<open>totalTokens\<close>; \<^verbatim>\<open>unshift\<close> puts the turn in
  front.  \<open>None\<close> is the exception that reaches the outer \<^verbatim>\<open>catch\<close>.
\<close>

fun history_loop :: "json_parser \<Rightarrow> channel_message list \<Rightarrow> int \<Rightarrow> turn list \<Rightarrow> nat \<Rightarrow> turn list option" where
  "history_loop jp [] maxTokens history totalTokens = Some history"
| "history_loop jp (msg # older) maxTokens history totalTokens =
     (case classify jp msg of
        Skip \<Rightarrow> history_loop jp older maxTokens history totalTokens
      | Fail \<Rightarrow> None
      | Keep t \<Rightarrow>
          let msgTokens = estimateTokens (content t);
              isRecentMessage = (length history < MIN_HISTORY_MESSAGES)
          in if \<not> isRecentMessage \<and> int totalTokens + int msgTokens > maxTokens
             then Some history
             else history_loop jp older maxTokens (t # history) (totalTokens + msgTokens))"

text \<open>
  The argument \<open>response\<close> is what \<^verbatim>\<open>channel.query\<close> answered: it throws, or returns
  a response whose \<^verbatim>\<open>messages\<close>, oldest first, may be absent.
\<close>

definition getConversationHistory ::
  "json_parser \<Rightarrow> channel_message list option outcome \<Rightarrow> int \<Rightarrow> turn list" where
  "getConversationHistory jp response maxTokens =
     (case response of
        Throws \<Rightarrow> []
      | Returns None \<Rightarrow> []
      | Returns (Some messages) \<Rightarrow>
          if messages = [] then []
          else (case history_loop jp (rev messages) maxTokens [] 0 of
                  None \<Rightarrow> []
                | Some history \<Rightarrow> history))"

text \<open>The turns a list of messages decodes to, in the order of the list.\<close>

fun kept_turn :: "step \<Rightarrow> turn option" where
  "kept_turn (Keep t) = Some t"
| "kept_turn Skip = None"
| "kept_turn Fail = None"

definition turns_of :: "json_parser \<Rightarrow> channel_message list \<Rightarrow> turn list" where
  "turns_of jp msgs = List.map_filter (\<lambda>m. kept_turn (classify jp m)) msgs"

definition tokens_of :: "turn list \<Rightarrow> nat" where
  "tokens_of h = sum_list (map (\<lambda>t. estimateTokens (content t)) h)"

definition decodable :: "json_parser \<Rightarrow> channel_message list \<Rightarrow> bool" where
  "decodable jp msgs = list_all (\<lambda>m. classify jp m \<noteq> Fail) msgs"

text \<open>A parser that throws on every input, to run the functions on texts that are not JSON.\<close>

definition not_json :: json_parser where
  "not_json s = None"

definition response_messages :: "channel_message list option outcome \<Rightarrow> channel_message list" where
  "response_messages response = (case response of Returns (Some messages) \<Rightarrow> messages | _ \<Rightarrow> [])"

text \<open>A channel of five plain-text messages, oldest first.\<close>

definition sample_history :: "channel_message list" where
  "sample_history =
     [\<lparr>msg_text = Some ''I feel dizzy today'', msg_ai_generated = False\<rparr>,
      \<lparr>msg_text = Some ''Please drink some water'', msg_ai_generated = True\<rparr>,
      \<lparr>msg_text = Some ''ok thanks'', msg_ai_generated = False\<rparr>,
      \<lparr>msg_text = Some ''You are welcome'', msg_ai_generated = True\<rparr>,
      \<lparr>msg_text = Some ''my head hurts'', msg_ai_generated = False\<rparr>]"

section \<open>String helpers of the completion loop\<close>

text \<open>\<^verbatim>\<open>String.prototype.includes\<close>.\<close>

fun str_includes :: "string \<Rightarrow> string \<Rightarrow> bool" where
  "str_includes [] p = (p = [])"
| "str_includes (c # cs) p = (prefix p (c # cs) \<or> str_includes cs p)"

text \<open>\<^verbatim>\<open>String.prototype.toLowerCase\<close> on the code units below 256.\<close>

definition lower_char :: "char \<Rightarrow> char" where
  "lower_char c =
     (let n = (of_char c :: nat)
      in if (65 \<le> n \<and> n \<le> 90) \<or> (192 \<le> n \<and> n \<le> 222 \<and> n \<noteq> 215)
         then char_of (n + 32) else c)"

definition toLowerCase :: "string \<Rightarrow> string" where
  "toLowerCase s = map lower_char s"

text \<open>The decimal numeral of a natural number, as a template literal prints it.\<close>

definition digit_char :: "nat \<Rightarrow> char" where
  "digit_char d =
     (if d = 0 then CHR ''0'' else if d = 1 then CHR ''1'' else if d = 2 then CHR ''2''
      else if d = 3 then CHR ''3'' else if d = 4 then CHR ''4'' else if d = 5 then CHR ''5''
      else if d = 6 then CHR ''6'' else if d = 7 then CHR ''7'' else if d = 8 then CHR ''8''
      else CHR ''9'')"

fun show_nat :: "nat \<Rightarrow> string" where
  "show_nat n = (if n < 10 then [digit_char n] else show_nat (n div 10) @ [digit_char (n mod 10)])"

section \<open>Streamed tool calls (rag.ts 586, 603-621)\<close>

text \<open>An element of \<^verbatim>\<open>delta.tool_calls\<close>: every field may be absent.\<close>

record tool_call_delta =
  tcd_index :: "nat option"
  tcd_id :: "string option"
  tcd_name :: "string option"
  tcd_arguments :: "string option"

text \<open>An entry of \<^verbatim>\<open>toolCalls\<close> (its \<^verbatim>\<open>type\<close> is always \<^verbatim>\<open>"function"\<close>).\<close>

record tool_call =
  tc_id :: string
  tc_name :: string
  tc_arguments :: string

text \<open>
  \<^verbatim>\<open>toolCalls\<close> is a JavaScript array written by index: a read out of range or of a
  hole is \<^verbatim>\<open>undefined\<close>, a write past the end extends the array with holes.
\<close>

definition get_at :: "'a option list \<Rightarrow> nat \<Rightarrow> 'a option" where
  "get_at xs i = (if i < length xs then xs ! i else None)"

definition set_at :: "'a option list \<Rightarrow> nat \<Rightarrow> 'a \<Rightarrow> 'a option list" where
  "set_at xs i v =
     (if i < length xs then xs[i := Some v]
      else xs @ replicate (i - length xs) None @ [Some v])"

text \<open>
  Lines 605-619 for one element \<open>tc\<close>; \<open>now\<close> is the reading of \<^verbatim>\<open>Date.now()\<close>
  that names a call whose first fragment carries no id.
\<close>

definition merge_tool_call_delta ::
  "nat \<Rightarrow> tool_call option list \<Rightarrow> tool_call_delta \<Rightarrow> tool_call option list" where
  "merge_tool_call_delta now toolCalls tc =
     (case tcd_index tc of
        None \<Rightarrow> toolCalls
      | Some i \<Rightarrow>
          let entry =
                (case get_at toolCalls i of
                   Some existing \<Rightarrow> existing
                 | None \<Rightarrow>
                     \<lparr>tc_id = str_or (tcd_id tc) (''call_'' @ show_nat now @ ''_'' @ show_nat i),
                      tc_name = [], tc_arguments = []\<rparr>)
          in set_at toolCalls i
               (entry\<lparr>tc_name := tc_name entry @ str_or (tcd_name tc) [],
                       tc_arguments := tc_arguments entry @ str_or (tcd_arguments tc) []\<rparr>))"

text \<open>
  A chunk of the completion stream: what \<^verbatim>\<open>chunk.choices[0]?.delta\<close> carries, and
  the clock readings taken while the chunk is handled (line 595, line 599, line 608).
\<close>

record chunk =
  delta_content :: "string option"
  delta_tool_calls :: "tool_call_delta list"
  t_check :: nat
  t_published :: nat
  t_id :: nat

section \<open>Conversation messages, tool results and observable effects\<close>

record tool_result =
  tool_call_id :: string
  tr_role :: string
  tr_name :: string
  tr_content :: string

datatype chat_message =
    Plain turn
  | AssistantCalls "string option" "tool_call option list"
  | ToolMessage tool_result

record sms =
  sms_body :: string
  sms_from :: "string option"
  sms_to :: string

text \<open>
  What the turn does to the outside, in order.  \<open>PreviewUpdate\<close> and \<open>FinalUpdate\<close>
  are both \<^verbatim>\<open>chatClient.partialUpdateMessage\<close>: the first is the throttled call of
  line 596 inside the stream loop, the second the call after the loop (line 686) or in
  the \<^verbatim>\<open>catch\<close> (line 703).  An effect is recorded when the call is made, whether the
  call then resolves or rejects.
\<close>

datatype effect =
    SendMessage
  | IndicatorUpdate string
  | IndicatorClear
  | PreviewUpdate string
  | FinalUpdate string
  | CreateCompletion "chat_message list"
  | TavilySearch "json option"
  | TwilioCreate sms

section \<open>Tool adapters (rag.ts 253-286)\<close>

record search_hit =
  hit_title :: "string option"
  hit_url :: "string option"
  hit_content :: "string option"

text \<open>
  The services and the process environment the turn reads: the JSON parser, the search
  provider (it throws, or returns its results, none when \<^verbatim>\<open>results\<close> is absent), the
  SMS provider, the printing of a number in a template literal, the time stamp put in
  the alert, two environment variables, and the chat transport: whether the call number
  \<open>n\<close> that the turn makes to it (\<^verbatim>\<open>sendMessage\<close>, \<^verbatim>\<open>sendEvent\<close>,
  \<^verbatim>\<open>partialUpdateMessage\<close>, counted from 0) resolves.
\<close>

record env =
  json_parse :: json_parser
  tavily_search :: "json option \<Rightarrow> search_hit list outcome"
  twilio_create :: "sms \<Rightarrow> unit outcome"
  number_string :: "real \<Rightarrow> string"
  iso_time :: string
  emergency_contact_number :: "string option"
  twilio_phone_number :: "string option"
  chat_transport :: "nat \<Rightarrow> bool"

fun format_hits :: "nat \<Rightarrow> search_hit list \<Rightarrow> string list" where
  "format_hits i [] = []"
| "format_hits i (r # rs) =
     (show_nat (i + 1) @ ''. '' @ str_or (hit_title r) ''Untitled'' @ '' - ''
        @ str_or (hit_url r) [] @ ''\<newline>'' @ str_or (hit_content r) [])
     # format_hits (i + 1) rs"

fun join :: "string \<Rightarrow> string list \<Rightarrow> string" where
  "join sep [] = []"
| "join sep [x] = x"
| "join sep (x # y # ys) = x @ sep @ join sep (y # ys)"

text \<open>\<^verbatim>\<open>searchWeb\<close>: the query is whatever value the caller passes on.\<close>

definition searchWeb :: "env \<Rightarrow> json option \<Rightarrow> effect list \<times> string" where
  "searchWeb e query =
     ([TavilySearch query],
      (case tavily_search e query of
         Throws \<Rightarrow> ''Error fetching search results.''
       | Returns hits \<Rightarrow>
           if hits = [] then ''No relevant information found.''
           else join ''\<newline>\<newline>'' (format_hits 0 hits)))"

text \<open>A \<^verbatim>\<open>try\<close> block with its \<^verbatim>\<open>catch\<close>.\<close>

definition try_catch :: "'a outcome \<Rightarrow> 'a outcome \<Rightarrow> 'a outcome" where
  "try_catch body handler = (case body of Throws \<Rightarrow> handler | Returns v \<Rightarrow> Returns v)"

definition alert_sms :: "env \<Rightarrow> string \<Rightarrow> sms" where
  \<open>alert_sms e userMessage =
     \<lparr>sms_body =
        ''EMERGENCY ALERT: A user has sent a potentially suicidal message. Message: "''
          @ userMessage @ ''". Please provide immediate assistance. Time: '' @ iso_time e,
      sms_from = twilio_phone_number e,
      sms_to = str_or (emergency_contact_number e) ''+1234567890''\<rparr>\<close>

definition sendEmergencyAlert :: "env \<Rightarrow> string \<Rightarrow> effect list \<times> bool outcome" where
  "sendEmergencyAlert e userMessage =
     ([TwilioCreate (alert_sms e userMessage)],
      try_catch
        (case twilio_create e (alert_sms e userMessage) of
           Throws \<Rightarrow> Throws
         | Returns u \<Rightarrow> Returns True)
        (Returns False))"

section \<open>Dispatch of the accumulated tool calls (rag.ts 631-671)\<close>

text \<open>What lines 435-494 leave for the loop: the user text, the coordinates, the place.\<close>

record turn_ctx =
  message :: string
  lat :: "real option"
  long :: "real option"
  locationName :: "string option"

text \<open>\<^verbatim>\<open>lat && long && locationName\<close> (line 640).\<close>

definition has_location :: "turn_ctx \<Rightarrow> bool" where
  "has_location ctx =
     (case (lat ctx, long ctx, locationName ctx) of
        (Some a, Some b, Some l) \<Rightarrow> a \<noteq> 0 \<and> b \<noteq> 0 \<and> l \<noteq> []
      | _ \<Rightarrow> False)"

definition isLocationQuery :: "string \<Rightarrow> bool" where
  "isLocationQuery searchQuery =
     (str_includes (toLowerCase searchQuery) ''near'' \<or>
      str_includes (toLowerCase searchQuery) ''hospital'' \<or>
      str_includes (toLowerCase searchQuery) ''doctor'' \<or>
      str_includes (toLowerCase searchQuery) ''clinic'' \<or>
      str_includes (toLowerCase searchQuery) ''pharmacy'' \<or>
      str_includes (toLowerCase searchQuery) ''medical'')"

text \<open>Line 650, under the guard of line 640.\<close>

definition enhanced_query :: "env \<Rightarrow> turn_ctx \<Rightarrow> string \<Rightarrow> string" where
  "enhanced_query e ctx searchQuery =
     searchQuery @ '' '' @ the (locationName ctx) @ '' (''
       @ number_string e (the (lat ctx)) @ '','' @ number_string e (the (long ctx)) @ '')''"

text \<open>
  The branch of \<^verbatim>\<open>tool_search\<close> (lines 637-661).  Reading \<^verbatim>\<open>query\<close> off
  \<^verbatim>\<open>null\<close> throws; with a location, \<^verbatim>\<open>searchQuery.toLowerCase()\<close> throws unless
  the query is a string.
\<close>

definition search_result :: "env \<Rightarrow> tool_call \<Rightarrow> json option \<Rightarrow> effect list \<times> tool_result option outcome" where
  "search_result e toolCall searchQuery =
     (fst (searchWeb e searchQuery),
      Returns (Some \<lparr>tool_call_id = tc_id toolCall, tr_role = ''tool'',
                     tr_name = tc_name toolCall, tr_content = snd (searchWeb e searchQuery)\<rparr>))"

definition dispatch_search ::
  "env \<Rightarrow> turn_ctx \<Rightarrow> tool_call \<Rightarrow> json \<Rightarrow> effect list \<times> tool_result option outcome" where
  "dispatch_search e ctx toolCall functionArgs =
     (case get_prop functionArgs ''query'' of
        PropThrows \<Rightarrow> ([], Throws)
      | PropUndefined \<Rightarrow>
          if has_location ctx then ([], Throws) else search_result e toolCall None
      | PropValue v \<Rightarrow>
          if has_location ctx then
            (case v of
               JStr searchQuery \<Rightarrow>
                 search_result e toolCall
                   (Some (JStr (if isLocationQuery searchQuery
                                then enhanced_query e ctx searchQuery else searchQuery)))
             | _ \<Rightarrow> ([], Throws))
          else search_result e toolCall (Some v))"

text \<open>The branch of \<^verbatim>\<open>tool_alert\<close> (lines 662-669): the awaited boolean is dropped.\<close>

definition dispatch_alert ::
  "env \<Rightarrow> turn_ctx \<Rightarrow> tool_call \<Rightarrow> effect list \<times> tool_result option outcome" where
  "dispatch_alert e ctx toolCall =
     (fst (sendEmergencyAlert e (message ctx)),
      (case snd (sendEmergencyAlert e (message ctx)) of
         Throws \<Rightarrow> Throws
       | Returns sent \<Rightarrow>
           Returns (Some \<lparr>tool_call_id = tc_id toolCall, tr_role = ''tool'',
                          tr_name = tc_name toolCall,
                          tr_content = ''Emergency alert sent successfully.''\<rparr>)))"

text \<open>
  One iteration of the loop of line 632.  A hole of the array is \<^verbatim>\<open>undefined\<close>, whose
  \<^verbatim>\<open>function\<close> cannot be read; the arguments are parsed before the name is looked
  at; a name that is neither tool pushes nothing.
\<close>

definition process_tool_call ::
  "env \<Rightarrow> turn_ctx \<Rightarrow> tool_call option \<Rightarrow> effect list \<times> tool_result option outcome" where
  "process_tool_call e ctx entry =
     (case entry of
        None \<Rightarrow> ([], Throws)
      | Some toolCall \<Rightarrow>
          (case json_parse e (tc_arguments toolCall) of
             None \<Rightarrow> ([], Throws)
           | Some functionArgs \<Rightarrow>
               if tc_name toolCall = ''tool_search'' then dispatch_search e ctx toolCall functionArgs
               else if tc_name toolCall = ''tool_alert'' then dispatch_alert e ctx toolCall
               else ([], Returns None)))"

fun process_tool_calls ::
  "env \<Rightarrow> turn_ctx \<Rightarrow> tool_call option list \<Rightarrow> tool_result list \<Rightarrow> effect list \<times> tool_result list outcome" where
  "process_tool_calls e ctx [] toolResults = ([], Returns toolResults)"
| "process_tool_calls e ctx (entry # entries) toolResults =
     (case process_tool_call e ctx entry of
        (effs, Throws) \<Rightarrow> (effs, Throws)
      | (effs, Returns pushed) \<Rightarrow>
          (effs @ fst (process_tool_calls e ctx entries (toolResults @ (case pushed of None \<Rightarrow> [] | Some r \<Rightarrow> [r]))),
           snd (process_tool_calls e ctx entries (toolResults @ (case pushed of None \<Rightarrow> [] | Some r \<Rightarrow> [r])))))"

section \<open>The completion loop (rag.ts 570-682)\<close>

text \<open>
  The variables of one pass over a stream, the previews published on the way, and
  whether a rejected preview has thrown out of the pass.
\<close>

record stream_state =
  currentContent :: string
  toolCalls :: "tool_call option list"
  lastUpdate :: nat
  published :: "effect list"
  aborted :: bool

text \<open>
  The body of \<^verbatim>\<open>for await (const chunk of completionStream)\<close>, lines 589-621.  An
  absent or empty \<^verbatim>\<open>delta.content\<close> is falsy; the preview shows
  \<^verbatim>\<open>accumulatedText + currentContent\<close>.  The preview is a call to the chat
  transport, the one numbered \<open>calls\<close> plus the previews of this pass so far; when it
  rejects, the exception leaves the pass before the tool calls of the chunk are looked
  at.
\<close>

definition consume_chunk :: "env \<Rightarrow> nat \<Rightarrow> string \<Rightarrow> stream_state \<Rightarrow> chunk \<Rightarrow> stream_state" where
  "consume_chunk e calls accumulatedText st c =
     (if aborted st then st
      else
        let content = str_or (delta_content c) [];
            preview = (content \<noteq> [] \<and> int (t_check c) - int (lastUpdate st) > 1000)
        in if preview \<and> \<not> chat_transport e (calls + length (published st))
           then st\<lparr>currentContent := currentContent st @ content,
                   published := published st
                     @ [PreviewUpdate (accumulatedText @ currentContent st @ content)],
                   aborted := True\<rparr>
           else \<lparr>currentContent = currentContent st @ content,
                 toolCalls = foldl (merge_tool_call_delta (t_id c)) (toolCalls st)
                               (delta_tool_calls c),
                 lastUpdate = (if preview then t_published c else lastUpdate st),
                 published = published st
                   @ (if preview then [PreviewUpdate (accumulatedText @ currentContent st @ content)]
                      else []),
                 aborted = False\<rparr>)"

definition consume_stream :: "env \<Rightarrow> nat \<Rightarrow> string \<Rightarrow> nat \<Rightarrow> chunk list \<Rightarrow> stream_state" where
  "consume_stream e calls accumulatedText lastUpd cs =
     foldl (consume_chunk e calls accumulatedText)
       \<lparr>currentContent = [], toolCalls = [], lastUpdate = lastUpd, published = [],
        aborted = False\<rparr> cs"

text \<open>
  What the provider answers to one request: the chunks it streams, and whether the
  stream then fails (a request that is refused is a stream that fails at once).  The
  provider of a turn is the list of its answers, one for each request of the loop.
\<close>

record provider_round =
  chunks :: "chunk list"
  stream_fails :: bool

text \<open>
  The \<^verbatim>\<open>while (true)\<close> of line 573; \<open>calls\<close> counts the calls made to the chat
  transport before the round.  The result is the effects in order, and the accumulated
  text or the exception that left the loop; \<open>None\<close> says that the loop asks for one
  more answer than the provider has given, that is, the turn has not ended.
\<close>

fun completion_loop ::
  "env \<Rightarrow> turn_ctx \<Rightarrow> provider_round list \<Rightarrow> chat_message list \<Rightarrow> string \<Rightarrow> nat \<Rightarrow> nat
    \<Rightarrow> (effect list \<times> string outcome) option" where
  "completion_loop e ctx [] conversationMessages accumulatedText lastUpd calls = None"
| "completion_loop e ctx (r # rs) conversationMessages accumulatedText lastUpd calls =
     (let st = consume_stream e calls accumulatedText lastUpd (chunks r);
          sofar = CreateCompletion conversationMessages # published st
      in if aborted st then Some (sofar, Throws)
         else if stream_fails r then Some (sofar, Throws)
         else if toolCalls st = [] then Some (sofar, Returns (accumulatedText @ currentContent st))
         else (case process_tool_calls e ctx (toolCalls st) [] of
                 (effs, Throws) \<Rightarrow> Some (sofar @ effs, Throws)
               | (effs, Returns toolResults) \<Rightarrow>
                   (case completion_loop e ctx rs
                           (conversationMessages
                              @ AssistantCalls
                                  (if currentContent st = [] then None else Some (currentContent st))
                                  (toolCalls st)
                              # map ToolMessage toolResults)
                           accumulatedText (lastUpdate st) (calls + length (published st)) of
                      None \<Rightarrow> None
                    | Some (later, out) \<Rightarrow> Some (sofar @ effs @ later, out))))"

section \<open>\<^verbatim>\<open>handleMessage\<close> from the reply message on (rag.ts 496-706)\<close>

text \<open>Lines 549-568: the system prompt, the history without a trailing copy of the
  current message, the current message.\<close>

definition build_conversation :: "string \<Rightarrow> turn list \<Rightarrow> string \<Rightarrow> chat_message list" where
  "build_conversation prompt conversationHistory msg =
     Plain \<lparr>role = ''system'', content = prompt\<rparr>
     # map Plain
         (if conversationHistory \<noteq> [] \<and> role (last conversationHistory) = ''user''
             \<and> content (last conversationHistory) = msg
          then butlast conversationHistory else conversationHistory)
     @ [Plain \<lparr>role = ''user'', content = msg\<rparr>]"

definition fallback_text :: string where
  \<open>fallback_text =
     ''{"lang": "en-US", "text": "I apologize, but I encountered an error. Please try again."}''\<close>

text \<open>
  The \<^verbatim>\<open>catch\<close> of lines 695-706, when \<open>n\<close> calls have been made to the chat
  transport: the error indicator, then the fallback publish.  A call that rejects here
  rejects the handler.
\<close>

definition catch_block :: "env \<Rightarrow> nat \<Rightarrow> effect list \<times> unit outcome" where
  "catch_block e n =
     (if \<not> chat_transport e n then ([IndicatorUpdate ''AI_STATE_ERROR''], Throws)
      else if \<not> chat_transport e (n + 1)
        then ([IndicatorUpdate ''AI_STATE_ERROR'', FinalUpdate fallback_text], Throws)
      else ([IndicatorUpdate ''AI_STATE_ERROR'', FinalUpdate fallback_text], Returns ()))"

text \<open>
  The end of the \<^verbatim>\<open>try\<close> (lines 684-694) after the loop has left \<open>out\<close>: the final
  publish and the clear event are inside the \<^verbatim>\<open>try\<close>, so when one of them rejects
  the \<^verbatim>\<open>catch\<close> runs, as it does when the loop has thrown.
\<close>

definition finish_turn :: "env \<Rightarrow> nat \<Rightarrow> string outcome \<Rightarrow> effect list \<times> unit outcome" where
  "finish_turn e n out =
     (case out of
        Throws \<Rightarrow> catch_block e n
      | Returns accumulatedText \<Rightarrow>
          if \<not> chat_transport e n
          then (FinalUpdate (trim accumulatedText) # fst (catch_block e (n + 1)),
                snd (catch_block e (n + 1)))
          else if \<not> chat_transport e (n + 1)
          then (FinalUpdate (trim accumulatedText) # IndicatorClear # fst (catch_block e (n + 2)),
                snd (catch_block e (n + 2)))
          else ([FinalUpdate (trim accumulatedText), IndicatorClear], Returns ()))"

fun is_preview :: "effect \<Rightarrow> bool" where
  "is_preview (PreviewUpdate t) = True"
| "is_preview x = False"

text \<open>
  The reply message (line 496) and the thinking indicator (line 501), which are outside
  the \<^verbatim>\<open>try\<close> and reject the handler when they reject; then the loop and the end
  of the turn.  The transport calls of the loop are its previews.  \<open>t0\<close> is the clock
  reading of line 571.  The result is the effects in order and how the handler ends;
  \<open>None\<close> when the turn has not ended.
\<close>

definition handleMessage ::
  "env \<Rightarrow> turn_ctx \<Rightarrow> string \<Rightarrow> turn list \<Rightarrow> nat \<Rightarrow> provider_round list
    \<Rightarrow> (effect list \<times> unit outcome) option" where
  "handleMessage e ctx prompt conversationHistory t0 provider =
     (if \<not> chat_transport e 0 then Some ([SendMessage], Throws)
      else if \<not> chat_transport e 1
        then Some ([SendMessage, IndicatorUpdate ''AI_STATE_THINKING''], Throws)
      else (case completion_loop e ctx provider
                   (build_conversation prompt conversationHistory (message ctx)) [] t0 2 of
              None \<Rightarrow> None
            | Some (effs, out) \<Rightarrow>
                Some (SendMessage # IndicatorUpdate ''AI_STATE_THINKING'' # effs
                        @ fst (finish_turn e (2 + length (filter is_preview effs)) out),
                      snd (finish_turn e (2 + length (filter is_preview effs)) out))))"

section \<open>Vocabulary of the statements about the loop\<close>

text \<open>
  The fragments of a stream, each with the clock reading of its chunk, and the merge of
  one such pair: the accumulator of lines 603-621 without the rest of the loop.
\<close>

definition timed_deltas :: "chunk list \<Rightarrow> (nat \<times> tool_call_delta) list" where
  "timed_deltas cs = concat (map (\<lambda>c. map (Pair (t_id c)) (delta_tool_calls c)) cs)"

definition merge_timed :: "tool_call option list \<Rightarrow> nat \<times> tool_call_delta \<Rightarrow> tool_call option list" where
  "merge_timed tcs nd = merge_tool_call_delta (fst nd) tcs (snd nd)"

text \<open>
  The tool calls and the text that a round streams, and whether the loop stops at the
  round whatever the transport does.
\<close>

definition round_tool_calls :: "provider_round \<Rightarrow> tool_call option list" where
  "round_tool_calls r = foldl merge_timed [] (timed_deltas (chunks r))"

definition round_content :: "provider_round \<Rightarrow> string" where
  "round_content r = concat (map (\<lambda>c. str_or (delta_content c) []) (chunks r))"

definition final_round :: "provider_round \<Rightarrow> bool" where
  "final_round r \<longleftrightarrow> stream_fails r \<or> round_tool_calls r = []"

text \<open>Every call to the chat transport resolves.\<close>

definition reliable_transport :: "env \<Rightarrow> bool" where
  "reliable_transport e \<longleftrightarrow> (\<forall>n. chat_transport e n)"

text \<open>
  The answer of the provider: the text of the first round without tool calls, when no
  round before it fails and every tool round before it is dispatched without exception.
\<close>

fun answer_text :: "env \<Rightarrow> turn_ctx \<Rightarrow> provider_round list \<Rightarrow> string option" where
  "answer_text e ctx [] = None"
| "answer_text e ctx (r # rs) =
     (if stream_fails r then None
      else if round_tool_calls r = [] then Some (round_content r)
      else if snd (process_tool_calls e ctx (round_tool_calls r) []) = Throws then None
      else answer_text e ctx rs)"

fun is_final_update :: "effect \<Rightarrow> bool" where
  "is_final_update (FinalUpdate t) = True"
| "is_final_update x = False"

fun is_alert :: "effect \<Rightarrow> bool" where
  "is_alert (TwilioCreate m) = True"
| "is_alert x = False"

text \<open>The effects the loop itself can have.\<close>

fun loop_effect :: "effect \<Rightarrow> bool" where
  "loop_effect (CreateCompletion ms) = True"
| "loop_effect (PreviewUpdate t) = True"
| "loop_effect (TavilySearch q) = True"
| "loop_effect (TwilioCreate m) = True"
| "loop_effect x = False"

text \<open>The conversations sent to the provider, in order.\<close>

fun requests :: "effect list \<Rightarrow> chat_message list list" where
  "requests [] = []"
| "requests (CreateCompletion ms # effs) = ms # requests effs"
| "requests (x # effs) = requests effs"

definition alert_calls :: "tool_call option list \<Rightarrow> nat" where
  "alert_calls tcs =
     length (filter (\<lambda>entry. case entry of None \<Rightarrow> False
                              | Some c \<Rightarrow> tc_name c = ''tool_alert'') tcs)"

text \<open>The calls of \<^verbatim>\<open>tool_alert\<close> accumulated in the rounds before the loop stops.\<close>

fun requested_alerts :: "provider_round list \<Rightarrow> nat" where
  "requested_alerts [] = 0"
| "requested_alerts (r # rs) =
     (if final_round r then 0 else alert_calls (round_tool_calls r) + requested_alerts rs)"

text \<open>The name and the arguments of each entry, without its id.\<close>

definition call_texts :: "tool_call option list \<Rightarrow> (string \<times> string) option list" where
  "call_texts tcs = map (map_option (\<lambda>c. (tc_name c, tc_arguments c))) tcs"

text \<open>All the tool-call fragments of a stream, in their order of arrival.\<close>

definition stream_deltas :: "chunk list \<Rightarrow> tool_call_delta list" where
  "stream_deltas cs = concat (map delta_tool_calls cs)"

definition mentioned :: "nat \<Rightarrow> tool_call_delta list \<Rightarrow> bool" where
  "mentioned i ds = list_ex (\<lambda>d. tcd_index d = Some i) ds"

definition name_fragments :: "nat \<Rightarrow> tool_call_delta list \<Rightarrow> string" where
  "name_fragments i ds =
     concat (map (\<lambda>d. str_or (tcd_name d) []) (filter (\<lambda>d. tcd_index d = Some i) ds))"

definition argument_fragments :: "nat \<Rightarrow> tool_call_delta list \<Rightarrow> string" where
  "argument_fragments i ds =
     concat (map (\<lambda>d. str_or (tcd_arguments d) []) (filter (\<lambda>d. tcd_index d = Some i) ds))"

text \<open>
  One more than the largest index that the fragments mention, and what the fragments of
  a stream spell at each index below it.
\<close>

definition index_bound :: "tool_call_delta list \<Rightarrow> nat" where
  "index_bound ds = foldr (\<lambda>d m. max (case tcd_index d of None \<Rightarrow> 0 | Some j \<Rightarrow> Suc j) m) ds 0"

definition spelled :: "tool_call_delta list \<Rightarrow> (string \<times> string) option list" where
  "spelled ds =
     map (\<lambda>i. if mentioned i ds then Some (name_fragments i ds, argument_fragments i ds)
              else None) [0 ..< index_bound ds]"

section \<open>Sample services for the runs on concrete inputs\<close>

text \<open>
  A parser that agrees with \<^verbatim>\<open>JSON.parse\<close> on the three argument strings used below
  and is used on no other valid JSON text.
\<close>

definition sample_parse :: json_parser where
  \<open>sample_parse s =
     (if s = ''{}'' then Some (JObj [])
      else if s = ''{"query": "hospital near me"}''
        then Some (JObj [(''query'', JStr ''hospital near me'')])
      else if s = ''{"reason": "self-harm"}''
        then Some (JObj [(''reason'', JStr ''self-harm'')])
      else None)\<close>

text \<open>
  A search provider that finds nothing, an SMS provider that fails, the decimal numeral
  of a number, which is how JavaScript prints a natural number, and a chat transport
  that never rejects.
\<close>

definition sample_env :: env where
  "sample_env =
     \<lparr>json_parse = sample_parse,
      tavily_search = (\<lambda>q. Returns []),
      twilio_create = (\<lambda>m. Throws),
      number_string = (\<lambda>x. show_nat (nat \<lfloor>x\<rfloor>)),
      iso_time = ''2025-01-01T00:00:00.000Z'',
      emergency_contact_number = None,
      twilio_phone_number = Some ''+15550100'',
      chat_transport = (\<lambda>n. True)\<rparr>"

definition sample_ctx :: turn_ctx where
  "sample_ctx =
     \<lparr>message = ''hospital near me'', lat = Some 13, long = Some 80,
      locationName = Some ''Chennai, India''\<rparr>"

section \<open>Auxiliary notions and sample inputs of the statements\<close>

text \<open>Three accumulated calls: a search, an alert, and a tool the agent does not have.\<close>

definition search_call :: tool_call where
  \<open>search_call = \<lparr>tc_id = ''call_1'', tc_name = ''tool_search'',
      tc_arguments = ''{"query": "hospital near me"}''\<rparr>\<close>

definition alert_call :: tool_call where
  \<open>alert_call = \<lparr>tc_id = ''call_2'', tc_name = ''tool_alert'',
      tc_arguments = ''{"reason": "self-harm"}''\<rparr>\<close>

definition weather_call :: tool_call where
  "weather_call = \<lparr>tc_id = ''call_3'', tc_name = ''tool_weather'', tc_arguments = ''{}''\<rparr>"

text \<open>The name and the arguments held at an index of \<^verbatim>\<open>toolCalls\<close>.\<close>

definition texts_at :: "tool_call option list \<Rightarrow> nat \<Rightarrow> (string \<times> string) option" where
  "texts_at tcs i = map_option (\<lambda>c. (tc_name c, tc_arguments c)) (get_at tcs i)"

text \<open>The effects of the dispatch of a tool call.\<close>

fun tool_effect :: "effect \<Rightarrow> bool" where
  "tool_effect (TavilySearch q) = True"
| "tool_effect (TwilioCreate m) = True"
| "tool_effect x = False"

text \<open>The tool result pushed for a call of \<^verbatim>\<open>tool_alert\<close>.\<close>

definition alert_result :: "tool_call \<Rightarrow> tool_result" where
  "alert_result toolCall =
     \<lparr>tool_call_id = tc_id toolCall, tr_role = ''tool'', tr_name = ''tool_alert'',
      tr_content = ''Emergency alert sent successfully.''\<rparr>"

text \<open>
  The sample services with a chat transport that rejects its call number 3, which in a
  turn without previews is the \<^verbatim>\<open>ai_indicator.clear\<close> event.
\<close>

definition clear_rejecting_env :: env where
  "clear_rejecting_env = sample_env\<lparr>chat_transport := (\<lambda>n. n \<noteq> 3)\<rparr>"

definition names_alert :: "tool_call option \<Rightarrow> bool" where
  "names_alert entry = (case entry of None \<Rightarrow> False | Some c \<Rightarrow> tc_name c = ''tool_alert'')"

text \<open>
  The provider-error path: the first round that fails or carries no tool call is one
  that fails.
\<close>

fun provider_error :: "provider_round list \<Rightarrow> bool" where
  "provider_error [] = False"
| "provider_error (r # rs) =
     (if stream_fails r then True else if round_tool_calls r = [] then False
      else provider_error rs)"

text \<open>Chunks that carry only text, or only tool-call fragments, all read at clock 0.\<close>

definition text_chunk :: "string \<Rightarrow> chunk" where
  "text_chunk s = \<lparr>delta_content = Some s, delta_tool_calls = [], t_check = 0, t_published = 0, t_id = 0\<rparr>"

definition calls_chunk :: "tool_call_delta list \<Rightarrow> chunk" where
  "calls_chunk ds = \<lparr>delta_content = None, delta_tool_calls = ds, t_check = 0, t_published = 0, t_id = 0\<rparr>"

text \<open>
  A turn without location whose user text asks for help, and providers for it: one that
  streams two alert calls and then answers, one whose stream fails, one that answers at
  once, one that streams a single alert call in two fragments and then answers.
\<close>

definition crisis_ctx :: turn_ctx where
  "crisis_ctx = \<lparr>message = ''I want to end my life'', lat = None, long = None, locationName = None\<rparr>"

definition two_alerts_provider :: "provider_round list" where
  \<open>two_alerts_provider =
     [\<lparr>chunks =
         [calls_chunk [\<lparr>tcd_index = Some 0, tcd_id = Some ''call_a'', tcd_name = Some ''tool_alert'',
                         tcd_arguments = Some ''{"reason": "self-harm"}''\<rparr>],
          calls_chunk [\<lparr>tcd_index = Some 1, tcd_id = Some ''call_b'', tcd_name = Some ''tool_alert'',
                         tcd_arguments = Some ''{"reason": "self-harm"}''\<rparr>]],
       stream_fails = False\<rparr>,
      \<lparr>chunks = [text_chunk ''You are not alone.''], stream_fails = False\<rparr>]\<close>

definition failing_provider :: "provider_round list" where
  "failing_provider = [\<lparr>chunks = [text_chunk ''Let me''], stream_fails = True\<rparr>]"

definition answering_provider :: "provider_round list" where
  "answering_provider =
     [\<lparr>chunks = [text_chunk ''Drink '', text_chunk ''water. ''], stream_fails = False\<rparr>]"

definition alert_round :: provider_round where
  \<open>alert_round =
     \<lparr>chunks =
         [calls_chunk [\<lparr>tcd_index = Some 0, tcd_id = Some ''call_a'', tcd_name = Some ''tool_alert'',
                         tcd_arguments = Some ''{"reason"''\<rparr>],
          calls_chunk [\<lparr>tcd_index = Some 0, tcd_id = None, tcd_name = None,
                         tcd_arguments = Some '': "self-harm"}''\<rparr>]],
       stream_fails = False\<rparr>\<close>

definition closing_round :: provider_round where
  "closing_round = \<lparr>chunks = [text_chunk ''You are not alone.''], stream_fails = False\<rparr>"

definition one_alert_provider :: "provider_round list" where
  "one_alert_provider = [alert_round, closing_round]"

text \<open>The call that \<open>alert_round\<close> accumulates.\<close>

definition streamed_alert_call :: tool_call where
  \<open>streamed_alert_call = \<lparr>tc_id = ''call_a'', tc_name = ''tool_alert'',
      tc_arguments = ''{"reason": "self-harm"}''\<rparr>\<close>

text \<open>
  The three calls delivered whole in one chunk, and cut into fragments that arrive
  interleaved.
\<close>

definition whole_stream :: "chunk list" where
  \<open>whole_stream =
     [calls_chunk
        [\<lparr>tcd_index = Some 0, tcd_id = Some ''call_a'', tcd_name = Some ''tool_search'',
          tcd_arguments = Some ''{"query": "hospital near me"}''\<rparr>,
         \<lparr>tcd_index = Some 1, tcd_id = Some ''call_b'', tcd_name = Some ''tool_alert'',
          tcd_arguments = Some ''{"reason": "self-harm"}''\<rparr>,
         \<lparr>tcd_index = Some 2, tcd_id = Some ''call_c'', tcd_name = Some ''tool_weather'',
          tcd_arguments = Some ''{}''\<rparr>]]\<close>

definition split_stream :: "chunk list" where
  \<open>split_stream =
     [calls_chunk [\<lparr>tcd_index = Some 1, tcd_id = Some ''call_b'', tcd_name = Some ''tool_'',
                    tcd_arguments = None\<rparr>],
      calls_chunk [\<lparr>tcd_index = Some 2, tcd_id = Some ''call_c'', tcd_name = Some ''tool_wea'',
                    tcd_arguments = Some ''{''\<rparr>],
      calls_chunk [\<lparr>tcd_index = Some 0, tcd_id = Some ''call_a'', tcd_name = Some ''tool_search'',
                    tcd_arguments = Some ''{"query": ''\<rparr>],
      calls_chunk [\<lparr>tcd_index = Some 1, tcd_id = None, tcd_name = Some ''alert'',
                    tcd_arguments = Some ''{"reason"''\<rparr>,
                   \<lparr>tcd_index = Some 0, tcd_id = None, tcd_name = None,
                    tcd_arguments = Some ''"hospital near me"}''\<rparr>],
      calls_chunk [\<lparr>tcd_index = Some 2, tcd_id = None, tcd_name = Some ''ther'',
                    tcd_arguments = Some ''}''\<rparr>,
                   \<lparr>tcd_index = Some 1, tcd_id = None, tcd_name = None,
                    tcd_arguments = Some '': "self-harm"}''\<rparr>]]\<close>

section \<open>Client: \<^verbatim>\<open>extractTextFromStreamingJSON\<close> (chat-message.tsx 43-81)\<close>

definition dquote :: char where "dquote = CHR 0x22"
definition backslash :: char where "backslash = CHR 0x5C"

text \<open>The characters that \<^verbatim>\<open>.\<close> does not match in a regular expression.\<close>

definition is_line_terminator :: "char \<Rightarrow> bool" where
  "is_line_terminator c \<longleftrightarrow> c = CHR 0x0A \<or> c = CHR 0x0D"

text \<open>
  \<^verbatim>\<open>((?:[^"\\]|\\.)*)"\<close> matched at the start of a string: the captured group, when
  the match succeeds.  The two alternatives exclude each other on the first character and
  neither matches a quote, so the group can only end at the first quote that no backslash
  escapes; backtracking finds no other match.
\<close>

fun scan_body :: "string \<Rightarrow> string option" where
  "scan_body [] = None"
| "scan_body [c] = (if c = dquote then Some [] else None)"
| "scan_body (c # d # ds) =
     (if c = dquote then Some []
      else if c = backslash
        then (if is_line_terminator d then None
              else map_option (\<lambda>g. c # d # g) (scan_body ds))
      else map_option (\<lambda>g. c # g) (scan_body (d # ds)))"

text \<open>\<^verbatim>\<open>([^"]*)"\<close> matched at the start of a string.\<close>

fun scan_plain :: "string \<Rightarrow> string option" where
  "scan_plain [] = None"
| "scan_plain (c # cs) = (if c = dquote then Some [] else map_option (\<lambda>g. c # g) (scan_plain cs))"

text \<open>
  \<^verbatim>\<open>"key"\s*:\s*"\<close> followed by a group, matched at the start of a string; \<open>key\<close>
  comes with its quotes.
\<close>

definition match_field_at :: "string \<Rightarrow> (string \<Rightarrow> string option) \<Rightarrow> string \<Rightarrow> string option" where
  "match_field_at key scan s =
     (if prefix key s then
        (case dropWhile is_js_space (drop (length key) s) of
           [] \<Rightarrow> None
         | c # r \<Rightarrow>
             if c = CHR '':'' then
               (case dropWhile is_js_space r of
                  [] \<Rightarrow> None
                | q # body \<Rightarrow> if q = dquote then scan body else None)
             else None)
      else None)"

text \<open>\<^verbatim>\<open>rawText.match(re)\<close> without the global flag: the leftmost match.\<close>

fun match_field :: "string \<Rightarrow> (string \<Rightarrow> string option) \<Rightarrow> string \<Rightarrow> string option" where
  "match_field key scan [] = None"
| "match_field key scan (c # cs) =
     (case match_field_at key scan (c # cs) of
        Some g \<Rightarrow> Some g
      | None \<Rightarrow> match_field key scan cs)"

definition text_key :: string where \<open>text_key = ''"text"''\<close>
definition lang_key :: string where \<open>lang_key = ''"lang"''\<close>

definition textMatch :: "string \<Rightarrow> string option" where
  "textMatch rawText = match_field text_key scan_body rawText"

definition langMatch :: "string \<Rightarrow> string option" where
  "langMatch rawText = match_field lang_key scan_plain rawText"

text \<open>\<^verbatim>\<open>s.replace(/\\x/g, r)\<close>: every backslash followed by \<open>x\<close>, from the left.\<close>

fun replace_escape :: "char \<Rightarrow> char \<Rightarrow> string \<Rightarrow> string" where
  "replace_escape x r (c # d # cs) =
     (if c = backslash \<and> d = x then r # replace_escape x r cs
      else c # replace_escape x r (d # cs))"
| "replace_escape x r cs = cs"

definition unescape :: "string \<Rightarrow> string" where
  "unescape s =
     replace_escape backslash backslash
       (replace_escape dquote dquote
          (replace_escape CHR ''t'' CHR 0x09
             (replace_escape CHR ''n'' CHR 0x0A s)))"

text \<open>The result: \<^verbatim>\<open>text\<close> and \<^verbatim>\<open>lang\<close> are whatever the parsed object held.\<close>

record extracted =
  ex_text :: json
  ex_lang :: "json option"
  isComplete :: bool

text \<open>Lines 47-56: the \<^verbatim>\<open>try\<close> around the full parse; \<open>None\<close> when control falls
  through to the regular expressions.\<close>

definition parsed_envelope :: "json_parser \<Rightarrow> string \<Rightarrow> extracted option" where
  "parsed_envelope jp rawText =
     (case jp rawText of
        None \<Rightarrow> None
      | Some parsed \<Rightarrow>
          (case get_prop parsed ''text'' of
             PropThrows \<Rightarrow> None
           | PropUndefined \<Rightarrow> None
           | PropValue v \<Rightarrow>
               Some \<lparr>ex_text = v,
                     ex_lang = (case get_prop parsed ''lang'' of
                                  PropValue l \<Rightarrow> if truthy l then Some l else None
                                | _ \<Rightarrow> None),
                     isComplete = True\<rparr>))"

definition extractTextFromStreamingJSON :: "json_parser \<Rightarrow> string \<Rightarrow> extracted" where
  "extractTextFromStreamingJSON jp rawText =
     (if rawText = [] then \<lparr>ex_text = JStr [], ex_lang = None, isComplete = False\<rparr>
      else (case parsed_envelope jp rawText of
              Some r \<Rightarrow> r
            | None \<Rightarrow>
                (case textMatch rawText of
                   Some captured \<Rightarrow>
                     \<lparr>ex_text = JStr (unescape captured),
                      ex_lang = map_option JStr (langMatch rawText),
                      isComplete = False\<rparr>
                 | None \<Rightarrow>
                     if prefix ''{'' (trim rawText)
                     then \<lparr>ex_text = JStr [], ex_lang = None, isComplete = False\<rparr>
                     else \<lparr>ex_text = JStr rawText, ex_lang = None, isComplete = True\<rparr>)))"

text \<open>
  A \<^verbatim>\<open>text\<close> value that is still open: characters other than the quote and the
  backslash, and backslash escapes of a character that is no line terminator, up to the
  end of the fragment (which may cut an escape after its backslash).
\<close>

fun open_body :: "string \<Rightarrow> bool" where
  "open_body [] = True"
| "open_body [c] = (c \<noteq> dquote)"
| "open_body (c # d # ds) =
     (if c = dquote then False
      else if c = backslash then \<not> is_line_terminator d \<and> open_body ds
      else open_body (d # ds))"

text \<open>The start of a quoted key \<^verbatim>\<open>text\<close>.\<close>

definition text_key_start :: string where \<open>text_key_start = ''"text''\<close>

section \<open>Retrieval: what the loop guarantees\<close>

lemma retrieve_loop_accepted:
  "retrieve_loop ms ctx n =
     (ctx @ concat (map (\<lambda>m. snippet_of m @ ''\<newline>'') (accepted_matches ms n)),
      n + sum_list (map (\<lambda>m. estimateTokens (snippet_of m)) (accepted_matches ms n)))"
  by (induction ms arbitrary: ctx n) (simp_all add: add.assoc)

lemma retrieve_loop_cap:
  "n \<le> PINECONE_TOKEN_LIMIT \<Longrightarrow> snd (retrieve_loop ms ctx n) \<le> PINECONE_TOKEN_LIMIT"
  by (induction ms arbitrary: ctx n) simp_all

lemma accepted_tokens_cap:
  "sum_list (map (\<lambda>m. estimateTokens (snippet_of m)) (accepted_matches ms 0)) \<le> PINECONE_TOKEN_LIMIT"
  using retrieve_loop_cap [of 0 ms "[]"] by (simp add: retrieve_loop_accepted)

lemma accepted_not_low: "m \<in> set (accepted_matches ms n) \<Longrightarrow> \<not> low_relevance m"
  by (induction ms arbitrary: n) (auto split: if_splits)





lemma estimateTokens_mono: "length a \<le> length b \<Longrightarrow> estimateTokens a \<le> estimateTokens b"
  by (simp add: estimateTokens_def div_le_mono)



section \<open>History assembly: what the loop guarantees\<close>

lemma history_loop_result:
  "history_loop jp ms maxT h (tokens_of h) = Some r \<Longrightarrow>
   \<exists>k\<le>length (turns_of jp ms).
      r = rev (take k (turns_of jp ms)) @ h \<and>
      (k < length (turns_of jp ms) \<longrightarrow>
         MIN_HISTORY_MESSAGES \<le> length r \<and>
         maxT < int (tokens_of r) + int (estimateTokens (content (turns_of jp ms ! k))))"
proof (induction ms arbitrary: h)
  case Nil
  then show ?case by (simp add: turns_of_def)
next
  case (Cons m ms)
  show ?case
  proof (cases "classify jp m")
    case Skip
    with Cons show ?thesis by (simp add: turns_of_def)
  next
    case Fail
    with Cons.prems show ?thesis by simp
  next
    case (Keep t)
    have K: "turns_of jp (m # ms) = t # turns_of jp ms"
      using Keep by (simp add: turns_of_def)
    show ?thesis
    proof (cases "\<not> length h < MIN_HISTORY_MESSAGES \<and> int (tokens_of h) + int (estimateTokens (content t)) > maxT")
      case True
      with Cons.prems Keep have "r = h" by (simp add: Let_def)
      with True show ?thesis by (intro exI [of _ 0]) (simp add: K)
    next
      case False
      have tok: "tokens_of (t # h) = tokens_of h + estimateTokens (content t)"
        by (simp add: tokens_of_def)
      from False Cons.prems Keep
      have "history_loop jp ms maxT (t # h) (tokens_of (t # h)) = Some r"
        by (auto simp: Let_def tok)
      from Cons.IH [OF this] obtain k where k: "k \<le> length (turns_of jp ms)"
        "r = rev (take k (turns_of jp ms)) @ t # h"
        "k < length (turns_of jp ms) \<longrightarrow>
           MIN_HISTORY_MESSAGES \<le> length r \<and>
           maxT < int (tokens_of r) + int (estimateTokens (content (turns_of jp ms ! k)))"
        by blast
      then show ?thesis
        by (intro exI [of _ "Suc k"]) (simp add: K)
    qed
  qed
qed

lemma history_loop_budget:
  "history_loop jp ms maxT h (tokens_of h) = Some r \<Longrightarrow>
   int (tokens_of h) \<le> maxT \<or> length h \<le> MIN_HISTORY_MESSAGES \<Longrightarrow>
   int (tokens_of r) \<le> maxT \<or> length r \<le> MIN_HISTORY_MESSAGES"
proof (induction ms arbitrary: h)
  case Nil
  then show ?case by simp
next
  case (Cons m ms)
  show ?case
  proof (cases "classify jp m")
    case Skip
    with Cons show ?thesis by simp
  next
    case Fail
    with Cons.prems show ?thesis by simp
  next
    case (Keep t)
    show ?thesis
    proof (cases "\<not> length h < MIN_HISTORY_MESSAGES \<and> int (tokens_of h) + int (estimateTokens (content t)) > maxT")
      case True
      with Cons.prems Keep have "r = h" by (simp add: Let_def)
      with Cons.prems show ?thesis by simp
    next
      case False
      have tok: "tokens_of (t # h) = tokens_of h + estimateTokens (content t)"
        by (simp add: tokens_of_def)
      from False Cons.prems Keep
      have run: "history_loop jp ms maxT (t # h) (tokens_of (t # h)) = Some r"
        by (auto simp: Let_def tok)
      have "int (tokens_of (t # h)) \<le> maxT \<or> length (t # h) \<le> MIN_HISTORY_MESSAGES"
        using False by (auto simp: tok)
      from Cons.IH [OF run this] show ?thesis .
    qed
  qed
qed

lemma history_loop_total:
  "decodable jp ms \<Longrightarrow> \<exists>r. history_loop jp ms maxT h n = Some r"
proof (induction ms arbitrary: h n)
  case Nil
  then show ?case by simp
next
  case (Cons m ms)
  then show ?case
    by (cases "classify jp m") (auto simp: decodable_def Let_def)
qed

lemma turns_of_rev: "turns_of jp (rev ms) = rev (turns_of jp ms)"
  by (simp add: turns_of_def List.map_filter_def rev_map rev_filter)

lemma decodable_rev: "decodable jp (rev ms) = decodable jp ms"
  by (simp add: decodable_def)

lemma tokens_of_Nil: "tokens_of [] = 0"
  by (simp add: tokens_of_def)

lemma history_of_messages:
  fixes jp msgs maxT
  defines "E \<equiv> turns_of jp msgs"
  defines "h \<equiv> (case history_loop jp (rev msgs) maxT [] 0 of None \<Rightarrow> [] | Some r \<Rightarrow> r)"
  shows "suffix h E"
    and "int (tokens_of h) \<le> maxT \<or> length h \<le> MIN_HISTORY_MESSAGES"
    and "decodable jp msgs \<Longrightarrow> min MIN_HISTORY_MESSAGES (length E) \<le> length h"
    and "decodable jp msgs \<Longrightarrow> length h < length E \<Longrightarrow>
           MIN_HISTORY_MESSAGES \<le> length h \<and>
           maxT < int (tokens_of h) + int (estimateTokens (content (E ! (length E - Suc (length h)))))"
proof -
  show "suffix h E"
  proof (cases "history_loop jp (rev msgs) maxT [] 0")
    case None
    then show ?thesis by (simp add: h_def)
  next
    case (Some r)
    with history_loop_result [of jp "rev msgs" maxT "[]" r]
    obtain k where "k \<le> length (rev E)" "r = rev (take k (rev E))"
      by (auto simp: tokens_of_Nil turns_of_rev E_def)
    then have "r = drop (length E - k) E" by (simp add: rev_take)
    with Some show ?thesis by (simp add: h_def suffix_drop)
  qed
  show "int (tokens_of h) \<le> maxT \<or> length h \<le> MIN_HISTORY_MESSAGES"
  proof (cases "history_loop jp (rev msgs) maxT [] 0")
    case None
    then show ?thesis by (simp add: h_def)
  next
    case (Some r)
    with history_loop_budget [of jp "rev msgs" maxT "[]" r] show ?thesis
      by (simp add: h_def tokens_of_Nil)
  qed
  assume dec: "decodable jp msgs"
  then obtain r where r: "history_loop jp (rev msgs) maxT [] 0 = Some r"
    using history_loop_total [of jp "rev msgs" maxT "[]" 0] by (auto simp: decodable_rev)
  with history_loop_result [of jp "rev msgs" maxT "[]" r]
  obtain k where k: "k \<le> length E" "r = rev (take k (rev E))"
    "k < length E \<longrightarrow> MIN_HISTORY_MESSAGES \<le> length r \<and>
        maxT < int (tokens_of r) + int (estimateTokens (content (rev E ! k)))"
    by (auto simp: tokens_of_Nil turns_of_rev E_def)
  have hr: "h = r" using r by (simp add: h_def)
  have len: "length h = k" using k(1,2) hr by simp
  show "min MIN_HISTORY_MESSAGES (length E) \<le> length h"
    using k(1,3) len hr by (cases "k < length E") auto
  assume "length h < length E"
  then have lt: "k < length E" using len by simp
  then have "rev E ! k = E ! (length E - Suc k)" by (simp add: rev_nth)
  with k(3) lt len hr
  show "MIN_HISTORY_MESSAGES \<le> length h \<and>
     maxT < int (tokens_of h) + int (estimateTokens (content (E ! (length E - Suc (length h)))))"
    by simp
qed

text \<open>
  C5 (as the code has it).  Whatever the channel answers, the kept turns \<open>h\<close> are a
  suffix of the decodable non-empty turns \<open>E\<close> of the channel in chronological order (so
  they are the most recent ones, oldest first), and their token estimates sum to at most
  the allowance or there are at most \<^verbatim>\<open>MIN_HISTORY_MESSAGES\<close> of them.  When no
  message decodes to a text that is not a string, the most recent
  \<^verbatim>\<open>MIN_HISTORY_MESSAGES\<close> turns (all of them when the channel has fewer) are kept
  regardless of the allowance, and an older turn is left out only when at least
  \<^verbatim>\<open>MIN_HISTORY_MESSAGES\<close> turns are kept and adding the next older one would exceed
  the allowance.
\<close>

theorem getConversationHistory_kept:
  "(let h = getConversationHistory jp response maxTokens;
        E = turns_of jp (response_messages response)
    in suffix h E \<and>
       (int (tokens_of h) \<le> maxTokens \<or> length h \<le> MIN_HISTORY_MESSAGES) \<and>
       (decodable jp (response_messages response) \<longrightarrow>
          min MIN_HISTORY_MESSAGES (length E) \<le> length h \<and>
          (length h < length E \<longrightarrow>
             MIN_HISTORY_MESSAGES \<le> length h \<and>
             maxTokens < int (tokens_of h)
                + int (estimateTokens (content (E ! (length E - Suc (length h))))))))"
proof (cases "\<exists>msgs. response = Returns (Some msgs) \<and> msgs \<noteq> []")
  case True
  then obtain msgs where m: "response = Returns (Some msgs)" "msgs \<noteq> []" by blast
  have h: "getConversationHistory jp response maxTokens =
      (case history_loop jp (rev msgs) maxTokens [] 0 of None \<Rightarrow> [] | Some r \<Rightarrow> r)"
    using m by (simp add: getConversationHistory_def)
  have E: "response_messages response = msgs"
    using m by (simp add: response_messages_def)
  show ?thesis
    unfolding Let_def h E
    using history_of_messages [of jp msgs maxTokens] by blast
next
  case False
  then have "getConversationHistory jp response maxTokens = []"
    "response_messages response = []"
    by (auto simp: getConversationHistory_def response_messages_def
        split: outcome.split option.split)
  then show ?thesis
    by (simp add: turns_of_def)
qed

theorem getConversationHistory_kept_witness:
  "decodable not_json sample_history \<and>
   getConversationHistory not_json (Returns (Some sample_history)) 5 =
     [\<lparr>role = ''user'', content = ''ok thanks''\<rparr>,
      \<lparr>role = ''assistant'', content = ''You are welcome''\<rparr>,
      \<lparr>role = ''user'', content = ''my head hurts''\<rparr>] \<and>
   suffix (getConversationHistory not_json (Returns (Some sample_history)) 5)
     (turns_of not_json sample_history) \<and>
   length (getConversationHistory not_json (Returns (Some sample_history)) 5)
     < length (turns_of not_json sample_history) \<and>
   5 < int (tokens_of (getConversationHistory not_json (Returns (Some sample_history)) 5))
        + int (estimateTokens ''Please drink some water'')"
proof -
  have dec: "decodable not_json sample_history"
    by (simp add: decodable_def sample_history_def classify_def decode_message_text_def
        not_json_def trim_def is_js_space_def)
  have h: "getConversationHistory not_json (Returns (Some sample_history)) 5 =
     [\<lparr>role = ''user'', content = ''ok thanks''\<rparr>,
      \<lparr>role = ''assistant'', content = ''You are welcome''\<rparr>,
      \<lparr>role = ''user'', content = ''my head hurts''\<rparr>]"
    by (simp add: getConversationHistory_def sample_history_def classify_def
        decode_message_text_def not_json_def trim_def is_js_space_def estimateTokens_def
        MIN_HISTORY_MESSAGES_def Let_def)
  have E: "turns_of not_json sample_history =
     [\<lparr>role = ''user'', content = ''I feel dizzy today''\<rparr>,
      \<lparr>role = ''assistant'', content = ''Please drink some water''\<rparr>,
      \<lparr>role = ''user'', content = ''ok thanks''\<rparr>,
      \<lparr>role = ''assistant'', content = ''You are welcome''\<rparr>,
      \<lparr>role = ''user'', content = ''my head hurts''\<rparr>]"
    by (simp add: turns_of_def sample_history_def classify_def
        decode_message_text_def not_json_def trim_def is_js_space_def)
  have R: "response_messages (Returns (Some sample_history)) = sample_history"
    by (simp add: response_messages_def)
  show ?thesis
    using getConversationHistory_kept [of not_json "Returns (Some sample_history)" 5] dec
    unfolding Let_def R
    by (simp add: h E)
qed

text \<open>
  C5 (as the claim states it) fails: a channel that holds a single message keeps one
  turn, which is neither within an allowance of 2 tokens nor \<^verbatim>\<open>MIN_HISTORY_MESSAGES\<close>
  turns.
\<close>

theorem getConversationHistory_single_counterexample:
  "\<not> (int (tokens_of (getConversationHistory not_json
            (Returns (Some [\<lparr>msg_text = Some ''hello world!'', msg_ai_generated = False\<rparr>])) 2)) \<le> 2
      \<or> length (getConversationHistory not_json
            (Returns (Some [\<lparr>msg_text = Some ''hello world!'', msg_ai_generated = False\<rparr>])) 2)
          = MIN_HISTORY_MESSAGES)"
  by (simp add: getConversationHistory_def classify_def decode_message_text_def tokens_of_def
     not_json_def trim_def is_js_space_def estimateTokens_def MIN_HISTORY_MESSAGES_def Let_def)

section \<open>Retrieval: the relevance floor\<close>

lemma accepted_scores:
  "m \<in> set (accepted_matches ms n) \<Longrightarrow>
   score m = None \<or> score m = Some 0 \<or> (\<exists>s. score m = Some s \<and> 0.7 \<le> s)"
  using accepted_not_low [of m ms n]
  by (cases "score m") (auto simp: low_relevance_def)

text \<open>
  C4.  The token cap holds (\<open>accepted_tokens_cap\<close>) and a match with a non-zero score
  below 0.7 is never used (\<open>accepted_scores\<close>), but the guard
  \<^verbatim>\<open>match.score && match.score < 0.7\<close> lets the score 0 through: the chunk of a match
  scored 0 is returned.
\<close>

theorem retrieveFromPinecone_zero_score:
  "retrieveFromPinecone
     (Returns (Some [\<lparr>score = Some 0,
                      metadata = Some \<lparr>md_text = Some ''Aspirin thins the blood'',
                                       md_content = None, md_source = Some ''notes''\<rparr>\<rparr>]))
   = ''[Source: notes]\<newline>Aspirin thins the blood''"
  by (simp add: retrieveFromPinecone_def low_relevance_def match_content_def match_source_def
      snippet_of_def str_or_def estimateTokens_def PINECONE_TOKEN_LIMIT_def trim_def
      is_js_space_def)

section \<open>Tool dispatch: search queries, alerts, unknown tools\<close>

lemma str_includes_iff: "str_includes s p \<longleftrightarrow> (\<exists>a b. s = a @ p @ b)"
proof (induction s)
  case Nil
  then show ?case by auto
next
  case (Cons c cs)
  show ?case
  proof
    assume "str_includes (c # cs) p"
    then consider "prefix p (c # cs)" | "str_includes cs p" by auto
    then show "\<exists>a b. c # cs = a @ p @ b"
    proof cases
      case 1
      then obtain b where "c # cs = p @ b" by (auto simp: prefix_def)
      then have "c # cs = [] @ p @ b" by simp
      then show ?thesis by blast
    next
      case 2
      with Cons.IH obtain a b where "cs = a @ p @ b" by blast
      then have "c # cs = (c # a) @ p @ b" by simp
      then show ?thesis by blast
    qed
  next
    assume "\<exists>a b. c # cs = a @ p @ b"
    then obtain a b where ab: "c # cs = a @ p @ b" by blast
    show "str_includes (c # cs) p"
    proof (cases a)
      case Nil
      with ab have "prefix p (c # cs)" by (simp add: prefix_def)
      then show ?thesis by simp
    next
      case (Cons x a')
      with ab have "cs = a' @ p @ b" by simp
      with Cons.IH have "str_includes cs p" by blast
      then show ?thesis by simp
    qed
  qed
qed

lemma str_includes_mid: "str_includes (a @ p @ b) p"
  by (auto simp: str_includes_iff)

lemma sendEmergencyAlert_returns:
  "snd (sendEmergencyAlert e userMessage)
     = Returns (twilio_create e (alert_sms e userMessage) \<noteq> Throws)"
  by (simp add: sendEmergencyAlert_def try_catch_def split: outcome.split)

text \<open>
  C9 (as the code has it).  A tool call whose name is neither \<^verbatim>\<open>tool_search\<close> nor
  \<^verbatim>\<open>tool_alert\<close> has no effect and pushes no tool result: when its arguments parse
  the loop goes on with the remaining calls as if the call were not there, and when they
  do not parse the exception leaves the loop.
\<close>

theorem unknown_tool_skipped:
  assumes "tc_name toolCall \<noteq> ''tool_search''" and "tc_name toolCall \<noteq> ''tool_alert''"
  shows "process_tool_call e ctx (Some toolCall) =
           ([], case json_parse e (tc_arguments toolCall) of
                  None \<Rightarrow> Throws | Some functionArgs \<Rightarrow> Returns None) \<and>
         (json_parse e (tc_arguments toolCall) \<noteq> None \<longrightarrow>
            process_tool_calls e ctx (Some toolCall # entries) toolResults
              = process_tool_calls e ctx entries toolResults)"
  using assms by (auto simp: process_tool_call_def split: option.split)

text \<open>
  C3 (as the code has it).  With a location (non-zero coordinates and a resolved place)
  and a \<^verbatim>\<open>tool_search\<close> call whose query is a string with one of the six terms, the
  query forwarded to the search provider is the model's query followed by the place and
  by the coordinates in parentheses: it contains the place string, and it contains the
  printed latitude and the printed longitude.
\<close>

theorem search_query_enhanced:
  assumes "has_location ctx"
    and "tc_name toolCall = ''tool_search''"
    and "json_parse e (tc_arguments toolCall) = Some functionArgs"
    and "get_prop functionArgs ''query'' = PropValue (JStr searchQuery)"
    and "isLocationQuery searchQuery"
  shows "\<exists>place la lo.
           locationName ctx = Some place \<and> lat ctx = Some la \<and> long ctx = Some lo \<and>
           fst (process_tool_call e ctx (Some toolCall)) =
             [TavilySearch (Some (JStr (searchQuery @ '' '' @ place @ '' (''
                 @ number_string e la @ '','' @ number_string e lo @ '')'')))] \<and>
           str_includes (searchQuery @ '' '' @ place @ '' (''
                 @ number_string e la @ '','' @ number_string e lo @ '')'') place \<and>
           str_includes (searchQuery @ '' '' @ place @ '' (''
                 @ number_string e la @ '','' @ number_string e lo @ '')'') (number_string e la) \<and>
           str_includes (searchQuery @ '' '' @ place @ '' (''
                 @ number_string e la @ '','' @ number_string e lo @ '')'') (number_string e lo)"
proof -
  from assms(1) obtain place la lo where
    loc: "locationName ctx = Some place" "lat ctx = Some la" "long ctx = Some lo"
    by (auto simp: has_location_def split: option.splits)
  let ?q = "searchQuery @ '' '' @ place @ '' (''
                 @ number_string e la @ '','' @ number_string e lo @ '')''"
  have run: "fst (process_tool_call e ctx (Some toolCall)) = [TavilySearch (Some (JStr ?q))]"
    using assms loc
    by (simp add: process_tool_call_def dispatch_search_def search_result_def searchWeb_def
        enhanced_query_def)
  have p: "str_includes ?q place"
    using str_includes_mid [of "searchQuery @ '' ''" place] by simp
  have a: "str_includes ?q (number_string e la)"
    using str_includes_mid [of "searchQuery @ '' '' @ place @ '' (''" "number_string e la"] by simp
  have b: "str_includes ?q (number_string e lo)"
    using str_includes_mid [of "searchQuery @ '' '' @ place @ '' ('' @ number_string e la @ '',''"
       "number_string e lo"] by simp
  from loc run p a b show ?thesis by blast
qed

text \<open>
  C3 (as the claim states it) fails: at latitude 13 and longitude 80 the forwarded query
  ends with the raw coordinates.
\<close>

theorem search_query_coordinates:
  "fst (process_tool_call sample_env sample_ctx (Some search_call)) =
     [TavilySearch (Some (JStr ''hospital near me Chennai, India (13,80)''))]"
  by (simp add: process_tool_call_def dispatch_search_def search_result_def searchWeb_def
        enhanced_query_def sample_env_def sample_ctx_def search_call_def sample_parse_def
        has_location_def isLocationQuery_def toLowerCase_def lower_char_def digit_char_def)

section \<open>Streamed tool calls: what the accumulator holds\<close>

lemma get_at_set_at: "get_at (set_at xs i v) j = (if j = i then Some v else get_at xs j)"
  by (auto simp: get_at_def set_at_def nth_append)

lemma length_set_at: "length (set_at xs i v) = max (length xs) (Suc i)"
  by (simp add: set_at_def)

lemma texts_at_merge:
  "texts_at (merge_tool_call_delta now tcs d) j =
     (if tcd_index d = Some j
      then Some (case texts_at tcs j of
                   None \<Rightarrow> (str_or (tcd_name d) [], str_or (tcd_arguments d) [])
                 | Some p \<Rightarrow> (fst p @ str_or (tcd_name d) [], snd p @ str_or (tcd_arguments d) []))
      else texts_at tcs j)"
  by (cases "tcd_index d"; cases "get_at tcs j")
     (auto simp: texts_at_def merge_tool_call_delta_def get_at_set_at Let_def)

lemma length_merge:
  "length (merge_tool_call_delta now tcs d) =
     max (length tcs) (case tcd_index d of None \<Rightarrow> 0 | Some j \<Rightarrow> Suc j)"
  by (cases "tcd_index d") (simp_all add: merge_tool_call_delta_def length_set_at Let_def)

lemma mentioned_Cons: "mentioned i (d # ds) \<longleftrightarrow> tcd_index d = Some i \<or> mentioned i ds"
  by (simp add: mentioned_def)

lemma name_fragments_Cons:
  "name_fragments i (d # ds) =
     (if tcd_index d = Some i then str_or (tcd_name d) [] @ name_fragments i ds
      else name_fragments i ds)"
  by (simp add: name_fragments_def)

lemma argument_fragments_Cons:
  "argument_fragments i (d # ds) =
     (if tcd_index d = Some i then str_or (tcd_arguments d) [] @ argument_fragments i ds
      else argument_fragments i ds)"
  by (simp add: argument_fragments_def)

lemma not_mentioned_fragments:
  "\<not> mentioned i ds \<Longrightarrow> name_fragments i ds = [] \<and> argument_fragments i ds = []"
  by (induction ds) (auto simp: mentioned_Cons name_fragments_Cons argument_fragments_Cons
      name_fragments_def argument_fragments_def)

lemma texts_at_fold:
  "texts_at (foldl merge_timed tcs tds) i =
     (if mentioned i (map snd tds)
      then Some (case texts_at tcs i of
                   None \<Rightarrow> (name_fragments i (map snd tds), argument_fragments i (map snd tds))
                 | Some p \<Rightarrow> (fst p @ name_fragments i (map snd tds),
                              snd p @ argument_fragments i (map snd tds)))
      else texts_at tcs i)"
proof (induction tds arbitrary: tcs)
  case Nil
  then show ?case by (simp add: mentioned_def)
next
  case (Cons nd tds)
  have head: "texts_at (merge_timed tcs nd) i =
     (if tcd_index (snd nd) = Some i
      then Some (case texts_at tcs i of
                   None \<Rightarrow> (str_or (tcd_name (snd nd)) [], str_or (tcd_arguments (snd nd)) [])
                 | Some p \<Rightarrow> (fst p @ str_or (tcd_name (snd nd)) [],
                              snd p @ str_or (tcd_arguments (snd nd)) []))
      else texts_at tcs i)"
    by (simp add: merge_timed_def texts_at_merge)
  show ?case
    by (cases "texts_at tcs i")
       (auto simp: Cons.IH head mentioned_Cons name_fragments_Cons argument_fragments_Cons
          not_mentioned_fragments)
qed

lemma length_fold:
  "length (foldl merge_timed tcs tds) = max (length tcs) (index_bound (map snd tds))"
proof (induction tds arbitrary: tcs)
  case Nil
  then show ?case by (simp add: index_bound_def)
next
  case (Cons nd tds)
  have "length (merge_timed tcs nd)
      = max (length tcs) (case tcd_index (snd nd) of None \<Rightarrow> 0 | Some j \<Rightarrow> Suc j)"
    by (simp add: merge_timed_def length_merge)
  then show ?case
    by (simp add: Cons.IH index_bound_def max.assoc)
qed

lemma index_bound_le: "index_bound ds \<le> n \<longleftrightarrow> (\<forall>i. mentioned i ds \<longrightarrow> i < n)"
  by (induction ds) (auto simp: index_bound_def mentioned_def split: option.splits)

lemma index_bound_cong:
  assumes "\<And>i. mentioned i ds = mentioned i ds'"
  shows "index_bound ds = index_bound ds'"
proof (rule antisym)
  show "index_bound ds \<le> index_bound ds'"
    using assms index_bound_le [of ds' "index_bound ds'"] by (simp add: index_bound_le)
  show "index_bound ds' \<le> index_bound ds"
    using assms index_bound_le [of ds "index_bound ds"] by (simp add: index_bound_le)
qed

lemma fold_inner:
  "foldl (merge_tool_call_delta now) tcs ds = foldl merge_timed tcs (map (Pair now) ds)"
  by (induction ds arbitrary: tcs) (simp_all add: merge_timed_def)

lemma aborted_stays: "aborted st \<Longrightarrow> foldl (consume_chunk e n a) st cs = st"
  by (induction cs) (simp_all add: consume_chunk_def)

lemma consume_chunk_step:
  assumes "\<not> aborted (consume_chunk e n a st c)"
  shows "\<not> aborted st"
    and "toolCalls (consume_chunk e n a st c)
           = foldl merge_timed (toolCalls st) (map (Pair (t_id c)) (delta_tool_calls c))"
    and "currentContent (consume_chunk e n a st c)
           = currentContent st @ str_or (delta_content c) []"
  using assms by (auto simp: consume_chunk_def Let_def fold_inner split: if_splits)

lemma stream_fold:
  "\<not> aborted (foldl (consume_chunk e n a) st cs) \<Longrightarrow>
   \<not> aborted st \<and>
   toolCalls (foldl (consume_chunk e n a) st cs)
     = foldl merge_timed (toolCalls st) (timed_deltas cs) \<and>
   currentContent (foldl (consume_chunk e n a) st cs)
     = currentContent st @ concat (map (\<lambda>c. str_or (delta_content c) []) cs)"
proof (induction cs arbitrary: st)
  case Nil
  then show ?case by (simp add: timed_deltas_def)
next
  case (Cons c cs)
  from Cons.prems have run: "\<not> aborted (foldl (consume_chunk e n a) (consume_chunk e n a st c) cs)"
    by simp
  from Cons.IH [OF run] have step: "\<not> aborted (consume_chunk e n a st c)"
    and tc: "toolCalls (foldl (consume_chunk e n a) (consume_chunk e n a st c) cs)
       = foldl merge_timed (toolCalls (consume_chunk e n a st c)) (timed_deltas cs)"
    and cc: "currentContent (foldl (consume_chunk e n a) (consume_chunk e n a st c) cs)
       = currentContent (consume_chunk e n a st c) @ concat (map (\<lambda>c. str_or (delta_content c) []) cs)"
    by simp_all
  have td: "timed_deltas (c # cs) = map (Pair (t_id c)) (delta_tool_calls c) @ timed_deltas cs"
    by (simp add: timed_deltas_def)
  from consume_chunk_step [OF step] tc cc show ?case
    by (simp add: td)
qed

lemma snd_timed: "map snd (timed_deltas cs) = stream_deltas cs"
  by (induction cs) (simp_all add: timed_deltas_def stream_deltas_def comp_def)

lemma stream_not_aborted:
  assumes "\<not> aborted (consume_stream e n a l (chunks r))"
  shows "toolCalls (consume_stream e n a l (chunks r)) = round_tool_calls r"
    and "currentContent (consume_stream e n a l (chunks r)) = round_content r"
  using stream_fold [of e n a _ "chunks r"] assms
  by (simp_all add: consume_stream_def round_tool_calls_def round_content_def)

lemma reliable_chunk: "reliable_transport e \<Longrightarrow> \<not> aborted st \<Longrightarrow> \<not> aborted (consume_chunk e n a st c)"
  by (simp add: consume_chunk_def reliable_transport_def Let_def)

lemma reliable_fold:
  "reliable_transport e \<Longrightarrow> \<not> aborted st \<Longrightarrow> \<not> aborted (foldl (consume_chunk e n a) st cs)"
  by (induction cs arbitrary: st) (simp_all add: reliable_chunk)

lemma reliable_stream: "reliable_transport e \<Longrightarrow> \<not> aborted (consume_stream e n a l cs)"
  by (simp add: consume_stream_def reliable_fold)

lemma texts_at_Nil: "texts_at [] i = None"
  by (simp add: texts_at_def get_at_def)

lemma call_texts_nth:
  "i < length tcs \<Longrightarrow> call_texts tcs ! i = texts_at tcs i"
  by (simp add: call_texts_def texts_at_def get_at_def)

lemma fold_spelled: "call_texts (foldl merge_timed [] tds) = spelled (map snd tds)"
proof (rule nth_equalityI)
  show len: "length (call_texts (foldl merge_timed [] tds)) = length (spelled (map snd tds))"
    by (simp add: call_texts_def spelled_def length_fold)
  fix i assume "i < length (call_texts (foldl merge_timed [] tds))"
  then have i: "i < index_bound (map snd tds)" by (simp add: call_texts_def length_fold)
  then have "i < length (foldl merge_timed [] tds)" by (simp add: length_fold)
  then show "call_texts (foldl merge_timed [] tds) ! i = spelled (map snd tds) ! i"
    using i by (simp add: call_texts_nth texts_at_fold texts_at_Nil spelled_def)
qed

lemma stream_spelled:
  assumes "\<not> aborted (consume_stream e n a l cs)"
  shows "call_texts (toolCalls (consume_stream e n a l cs)) = spelled (stream_deltas cs)"
proof -
  have "toolCalls (consume_stream e n a l cs) = foldl merge_timed [] (timed_deltas cs)"
    using stream_fold [of e n a _ cs] assms by (simp add: consume_stream_def)
  then show ?thesis by (simp add: fold_spelled snd_timed)
qed

lemma spelled_cong:
  assumes "\<And>i. mentioned i ds = mentioned i ds'"
    and "\<And>i. name_fragments i ds = name_fragments i ds'"
    and "\<And>i. argument_fragments i ds = argument_fragments i ds'"
  shows "spelled ds = spelled ds'"
  using index_bound_cong [of ds ds'] assms by (simp add: spelled_def)

lemma spelled_calls:
  assumes "index_bound ds = length calls"
    and "\<And>i. i < length calls \<Longrightarrow>
           mentioned i ds \<and> name_fragments i ds = fst (calls ! i)
             \<and> argument_fragments i ds = snd (calls ! i)"
  shows "spelled ds = map Some calls"
  using assms by (intro nth_equalityI) (simp_all add: spelled_def)

text \<open>
  C8.  When no preview is rejected during the pass, the accumulator holds, at every index
  up to the largest one mentioned, the concatenation in order of arrival of the name
  fragments of that index and the concatenation of its argument fragments (and a hole
  at an index that no fragment mentions).  So when the fragments of the indices
  \<open>0, \<dots>, k\<close> spell the names and arguments of given calls, the accumulator holds exactly
  these calls, as if each had been delivered whole; and two streams whose fragments
  spell the same strings index by index accumulate the same names and arguments,
  however the indices are interleaved and wherever the strings are cut.
\<close>

theorem tool_calls_reassembled:
  assumes "\<not> aborted (consume_stream e n a l cs)"
  shows "call_texts (toolCalls (consume_stream e n a l cs)) = spelled (stream_deltas cs) \<and>
    (index_bound (stream_deltas cs) = length calls \<and>
     (\<forall>i<length calls.
         mentioned i (stream_deltas cs) \<and>
         name_fragments i (stream_deltas cs) = fst (calls ! i) \<and>
         argument_fragments i (stream_deltas cs) = snd (calls ! i)) \<longrightarrow>
       call_texts (toolCalls (consume_stream e n a l cs)) = map Some calls) \<and>
    (\<not> aborted (consume_stream e' n' a' l' cs') \<and>
     (\<forall>i. mentioned i (stream_deltas cs) = mentioned i (stream_deltas cs')) \<and>
     (\<forall>i. name_fragments i (stream_deltas cs) = name_fragments i (stream_deltas cs')) \<and>
     (\<forall>i. argument_fragments i (stream_deltas cs) = argument_fragments i (stream_deltas cs')) \<longrightarrow>
       call_texts (toolCalls (consume_stream e n a l cs))
         = call_texts (toolCalls (consume_stream e' n' a' l' cs')))"
proof (intro conjI impI)
  show s: "call_texts (toolCalls (consume_stream e n a l cs)) = spelled (stream_deltas cs)"
    by (rule stream_spelled [OF assms])
  show "call_texts (toolCalls (consume_stream e n a l cs)) = map Some calls"
    if "index_bound (stream_deltas cs) = length calls \<and>
     (\<forall>i<length calls.
         mentioned i (stream_deltas cs) \<and>
         name_fragments i (stream_deltas cs) = fst (calls ! i) \<and>
         argument_fragments i (stream_deltas cs) = snd (calls ! i))"
    using that s spelled_calls [of "stream_deltas cs" calls] by simp
  show "call_texts (toolCalls (consume_stream e n a l cs))
         = call_texts (toolCalls (consume_stream e' n' a' l' cs'))"
    if "\<not> aborted (consume_stream e' n' a' l' cs') \<and>
     (\<forall>i. mentioned i (stream_deltas cs) = mentioned i (stream_deltas cs')) \<and>
     (\<forall>i. name_fragments i (stream_deltas cs) = name_fragments i (stream_deltas cs')) \<and>
     (\<forall>i. argument_fragments i (stream_deltas cs) = argument_fragments i (stream_deltas cs'))"
    using that s stream_spelled [of e' n' a' l' cs']
      spelled_cong [of "stream_deltas cs" "stream_deltas cs'"] by simp
qed

section \<open>The completion loop: effects, requests and answers\<close>

lemma tool_effects_facts:
  "list_all tool_effect effs \<Longrightarrow>
   list_all loop_effect effs \<and> requests effs = [] \<and> filter is_preview effs = [] \<and>
   filter is_final_update effs = []"
proof (induction effs)
  case Nil
  then show ?case by simp
next
  case (Cons x xs)
  then show ?case by (cases x) simp_all
qed

lemma preview_facts:
  "list_all is_preview effs \<Longrightarrow>
   list_all loop_effect effs \<and> requests effs = [] \<and> filter is_alert effs = [] \<and>
   filter is_final_update effs = [] \<and> filter is_preview effs = effs"
proof (induction effs)
  case Nil
  then show ?case by simp
next
  case (Cons x xs)
  then show ?case by (cases x) simp_all
qed

lemma published_fold:
  "list_all is_preview (published st) \<Longrightarrow>
   list_all is_preview (published (foldl (consume_chunk e n a) st cs))"
  by (induction cs arbitrary: st) (simp_all add: consume_chunk_def Let_def)

lemma published_stream: "list_all is_preview (published (consume_stream e n a l cs))"
  unfolding consume_stream_def by (rule published_fold) simp

lemma alert_calls_Cons:
  "alert_calls (entry # entries) = (if names_alert entry then 1 else 0) + alert_calls entries"
  by (simp add: alert_calls_def names_alert_def)

lemma alert_calls_Nil: "alert_calls [] = 0"
  by (simp add: alert_calls_def)

lemma process_tool_call_effects:
  "list_all tool_effect (fst (process_tool_call e ctx entry)) \<and>
   length (filter is_alert (fst (process_tool_call e ctx entry)))
     = (if names_alert entry \<and> snd (process_tool_call e ctx entry) \<noteq> Throws then 1 else 0)"
  by (auto simp: process_tool_call_def dispatch_search_def dispatch_alert_def search_result_def
      searchWeb_def sendEmergencyAlert_def try_catch_def names_alert_def
      split: option.split property.split json.split outcome.split)

lemma process_tool_calls_effects:
  "list_all tool_effect (fst (process_tool_calls e ctx entries rs)) \<and>
   length (filter is_alert (fst (process_tool_calls e ctx entries rs))) \<le> alert_calls entries \<and>
   (snd (process_tool_calls e ctx entries rs) \<noteq> Throws \<longrightarrow>
      length (filter is_alert (fst (process_tool_calls e ctx entries rs))) = alert_calls entries)"
proof (induction entries arbitrary: rs)
  case Nil
  then show ?case by (simp add: alert_calls_Nil)
next
  case (Cons entry entries)
  obtain effs out where p: "process_tool_call e ctx entry = (effs, out)"
    by (cases "process_tool_call e ctx entry")
  from process_tool_call_effects [of e ctx entry] p
  have one: "list_all tool_effect effs"
    "length (filter is_alert effs) = (if names_alert entry \<and> out \<noteq> Throws then 1 else 0)"
    by simp_all
  show ?case
  proof (cases out)
    case Throws
    with p one show ?thesis by (simp add: alert_calls_Cons)
  next
    case (Returns pushed)
    with p one Cons.IH [of "rs @ (case pushed of None \<Rightarrow> [] | Some r \<Rightarrow> [r])"]
    show ?thesis by (simp add: alert_calls_Cons)
  qed
qed

lemma process_tool_calls_keep:
  "snd (process_tool_calls e ctx entries rs) = Returns results \<Longrightarrow> set rs \<subseteq> set results"
proof (induction entries arbitrary: rs)
  case Nil
  then show ?case by simp
next
  case (Cons entry entries)
  obtain effs out where p: "process_tool_call e ctx entry = (effs, out)"
    by (cases "process_tool_call e ctx entry")
  show ?case
  proof (cases out)
    case Throws
    with p Cons.prems show ?thesis by simp
  next
    case (Returns pushed)
    with p Cons.prems
    have "snd (process_tool_calls e ctx entries (rs @ (case pushed of None \<Rightarrow> [] | Some r \<Rightarrow> [r])))
        = Returns results" by simp
    from Cons.IH [OF this] show ?thesis by auto
  qed
qed

lemma process_alert_call:
  assumes "tc_name toolCall = ''tool_alert''"
    and "process_tool_call e ctx (Some toolCall) = (effs, Returns pushed)"
  shows "pushed = Some (alert_result toolCall) \<and> effs = [TwilioCreate (alert_sms e (message ctx))]"
  using assms
  by (auto simp: process_tool_call_def dispatch_alert_def sendEmergencyAlert_def try_catch_def
      alert_result_def split: option.splits outcome.splits)

lemma process_tool_calls_alert:
  "snd (process_tool_calls e ctx entries rs) = Returns results \<Longrightarrow>
   Some toolCall \<in> set entries \<Longrightarrow> tc_name toolCall = ''tool_alert'' \<Longrightarrow>
   alert_result toolCall \<in> set results \<and>
   TwilioCreate (alert_sms e (message ctx)) \<in> set (fst (process_tool_calls e ctx entries rs))"
proof (induction entries arbitrary: rs)
  case Nil
  then show ?case by simp
next
  case (Cons entry entries)
  obtain effs out where p: "process_tool_call e ctx entry = (effs, out)"
    by (cases "process_tool_call e ctx entry")
  show ?case
  proof (cases out)
    case Throws
    with p Cons.prems show ?thesis by simp
  next
    case (Returns pushed)
    let ?rs = "rs @ (case pushed of None \<Rightarrow> [] | Some r \<Rightarrow> [r])"
    from Returns p Cons.prems(1)
    have rest: "snd (process_tool_calls e ctx entries ?rs) = Returns results" by simp
    show ?thesis
    proof (cases "entry = Some toolCall")
      case True
      with p Returns process_alert_call [OF Cons.prems(3), of e ctx effs pushed]
      have "pushed = Some (alert_result toolCall)"
        "effs = [TwilioCreate (alert_sms e (message ctx))]" by simp_all
      with process_tool_calls_keep [OF rest] p Returns show ?thesis by auto
    next
      case False
      with Cons.prems(2) have "Some toolCall \<in> set entries" by simp
      from Cons.IH [OF rest this Cons.prems(3)] p Returns show ?thesis by simp
    qed
  qed
qed

lemma requests_append: "requests (xs @ ys) = requests xs @ requests ys"
  by (induction xs rule: requests.induct) simp_all

lemma completion_loop_effects:
  "completion_loop e ctx provider conv acc l n = Some (effs, out) \<Longrightarrow>
   list_all loop_effect effs \<and>
   length (filter is_alert effs) \<le> requested_alerts provider \<and>
   (out \<noteq> Throws \<longrightarrow> length (filter is_alert effs) = requested_alerts provider)"
proof (induction provider arbitrary: conv acc l n effs out)
  case Nil
  then show ?case by simp
next
  case (Cons r rs)
  let ?st = "consume_stream e n acc l (chunks r)"
  have pub: "list_all loop_effect (published ?st)" "filter is_alert (published ?st) = []"
    using preview_facts [OF published_stream [of e n acc l "chunks r"]] by simp_all
  show ?case
  proof (cases "aborted ?st")
    case True
    with Cons.prems pub show ?thesis by (auto simp: Let_def)
  next
    case na: False
    have tcs: "toolCalls ?st = round_tool_calls r" by (rule stream_not_aborted(1) [OF na])
    show ?thesis
    proof (cases "final_round r")
      case True
      with Cons.prems pub tcs na show ?thesis
        by (auto simp: final_round_def Let_def split: if_splits)
    next
      case False
      then have nf: "\<not> stream_fails r" "round_tool_calls r \<noteq> []" by (auto simp: final_round_def)
      obtain teffs tout where pt: "process_tool_calls e ctx (round_tool_calls r) [] = (teffs, tout)"
        by (cases "process_tool_calls e ctx (round_tool_calls r) []")
      from process_tool_calls_effects [of e ctx "round_tool_calls r" "[]"] pt
      have t: "list_all tool_effect teffs"
        "length (filter is_alert teffs) \<le> alert_calls (round_tool_calls r)"
        "tout \<noteq> Throws \<longrightarrow> length (filter is_alert teffs) = alert_calls (round_tool_calls r)"
        by simp_all
      from tool_effects_facts [OF t(1)] have tl: "list_all loop_effect teffs" by simp
      show ?thesis
      proof (cases tout)
        case Throws
        with Cons.prems nf tcs na pt pub t tl False show ?thesis
          by (auto simp: Let_def)
      next
        case (Returns toolResults)
        let ?conv = "conv @ AssistantCalls
                       (if currentContent ?st = [] then None else Some (currentContent ?st))
                       (round_tool_calls r) # map ToolMessage toolResults"
        from Cons.prems nf tcs na pt Returns obtain later where
          rec: "completion_loop e ctx rs ?conv acc (lastUpdate ?st) (n + length (published ?st))
                  = Some (later, out)"
          and effs: "effs = (CreateCompletion conv # published ?st) @ teffs @ later"
          by (auto simp: Let_def split: option.splits)
        from Cons.IH [OF rec] t tl pub Returns False show ?thesis
          by (auto simp: effs)
      qed
    qed
  qed
qed

lemma completion_loop_ends:
  "list_ex final_round provider \<Longrightarrow>
   \<exists>effs out. completion_loop e ctx provider conv acc l n = Some (effs, out)"
proof (induction provider arbitrary: conv acc l n)
  case Nil
  then show ?case by simp
next
  case (Cons r rs)
  let ?st = "consume_stream e n acc l (chunks r)"
  show ?case
  proof (cases "aborted ?st")
    case True
    then show ?thesis by (simp add: Let_def)
  next
    case na: False
    have tcs: "toolCalls ?st = round_tool_calls r" by (rule stream_not_aborted(1) [OF na])
    show ?thesis
    proof (cases "final_round r")
      case True
      with tcs show ?thesis by (auto simp: final_round_def Let_def)
    next
      case False
      with Cons.prems have rest: "list_ex final_round rs" by simp
      from False have nf: "\<not> stream_fails r" "round_tool_calls r \<noteq> []"
        by (auto simp: final_round_def)
      obtain teffs tout where pt: "process_tool_calls e ctx (round_tool_calls r) [] = (teffs, tout)"
        by (cases "process_tool_calls e ctx (round_tool_calls r) []")
      show ?thesis
      proof (cases tout)
        case Throws
        with nf tcs na pt show ?thesis by (simp add: Let_def)
      next
        case (Returns toolResults)
        from Cons.IH [OF rest] obtain later out where
          "completion_loop e ctx rs (conv @ AssistantCalls
                       (if currentContent ?st = [] then None else Some (currentContent ?st))
                       (round_tool_calls r) # map ToolMessage toolResults) acc (lastUpdate ?st)
               (n + length (published ?st))
             = Some (later, out)"
          by blast
        with nf tcs na pt Returns show ?thesis by (simp add: Let_def)
      qed
    qed
  qed
qed

lemma completion_loop_answer:
  "reliable_transport e \<Longrightarrow>
   completion_loop e ctx provider conv acc l n = Some (effs, out) \<Longrightarrow>
   out = (case answer_text e ctx provider of
            Some text \<Rightarrow> Returns (acc @ text) | None \<Rightarrow> Throws)"
proof (induction provider arbitrary: conv acc l n effs)
  case Nil
  then show ?case by simp
next
  case (Cons r rs)
  let ?st = "consume_stream e n acc l (chunks r)"
  have na: "\<not> aborted ?st" by (rule reliable_stream [OF Cons.prems(1)])
  have tcs: "toolCalls ?st = round_tool_calls r" by (rule stream_not_aborted(1) [OF na])
  have cc: "currentContent ?st = round_content r" by (rule stream_not_aborted(2) [OF na])
  show ?case
  proof (cases "stream_fails r")
    case True
    with Cons.prems na show ?thesis by (simp add: Let_def)
  next
    case nf: False
    show ?thesis
    proof (cases "round_tool_calls r = []")
      case True
      with Cons.prems na nf tcs cc show ?thesis by (simp add: Let_def)
    next
      case ne: False
      obtain teffs tout where pt: "process_tool_calls e ctx (round_tool_calls r) [] = (teffs, tout)"
        by (cases "process_tool_calls e ctx (round_tool_calls r) []")
      show ?thesis
      proof (cases tout)
        case Throws
        with Cons.prems na nf ne tcs pt show ?thesis by (simp add: Let_def)
      next
        case (Returns toolResults)
        with Cons.prems(2) na nf ne tcs pt obtain later conv' l' n' where
          "completion_loop e ctx rs conv' acc l' n' = Some (later, out)"
          by (auto simp: Let_def split: option.splits)
        from Cons.IH [OF Cons.prems(1) this] nf ne pt Returns show ?thesis by simp
      qed
    qed
  qed
qed

lemma provider_error_no_answer: "provider_error provider \<Longrightarrow> answer_text e ctx provider = None"
  by (induction provider) (auto split: if_splits)

lemma completion_loop_first_request:
  "completion_loop e ctx provider conv acc l n = Some (effs, out) \<Longrightarrow>
   \<exists>more. requests effs = conv # more"
proof (cases provider)
  case Nil
  assume "completion_loop e ctx provider conv acc l n = Some (effs, out)"
  with Nil show ?thesis by simp
next
  case (Cons r rs)
  assume "completion_loop e ctx provider conv acc l n = Some (effs, out)"
  with Cons obtain rest where "effs = CreateCompletion conv # rest"
    by (auto simp: Let_def split: if_splits prod.splits outcome.splits option.splits)
  then show ?thesis by simp
qed

lemma completion_loop_feeds_alert:
  assumes na: "\<not> aborted (consume_stream e n acc l (chunks r))"
    and nf: "\<not> stream_fails r"
    and call: "Some toolCall \<in> set (round_tool_calls r)" "tc_name toolCall = ''tool_alert''"
    and ok: "snd (process_tool_calls e ctx (round_tool_calls r) []) \<noteq> Throws"
    and loop: "completion_loop e ctx (r # rest) conv acc l n = Some (effs, out)"
  shows "\<exists>conv' more. requests effs = conv # conv' # more \<and>
           ToolMessage (alert_result toolCall) \<in> set conv' \<and>
           TwilioCreate (alert_sms e (message ctx)) \<in> set effs"
proof -
  let ?st = "consume_stream e n acc l (chunks r)"
  have tcs: "toolCalls ?st = round_tool_calls r" by (rule stream_not_aborted(1) [OF na])
  from call have ne: "round_tool_calls r \<noteq> []" by auto
  obtain teffs tout where pt: "process_tool_calls e ctx (round_tool_calls r) [] = (teffs, tout)"
    by (cases "process_tool_calls e ctx (round_tool_calls r) []")
  with ok obtain results where tout: "tout = Returns results" by (cases tout) simp_all
  let ?conv = "conv @ AssistantCalls
                 (if currentContent ?st = [] then None else Some (currentContent ?st))
                 (round_tool_calls r) # map ToolMessage results"
  from loop na nf ne tcs pt tout obtain later where
    rec: "completion_loop e ctx rest ?conv acc (lastUpdate ?st) (n + length (published ?st))
            = Some (later, out)"
    and effs: "effs = (CreateCompletion conv # published ?st) @ teffs @ later"
    by (auto simp: Let_def split: option.splits)
  from process_tool_calls_alert [of e ctx "round_tool_calls r" "[]" results toolCall] pt tout call
  have res: "alert_result toolCall \<in> set results"
    and tw: "TwilioCreate (alert_sms e (message ctx)) \<in> set teffs" by simp_all
  from process_tool_calls_effects [of e ctx "round_tool_calls r" "[]"] pt
  have "list_all tool_effect teffs" by simp
  from tool_effects_facts [OF this] have rt: "requests teffs = []" by simp
  have rp: "requests (published ?st) = []"
    using preview_facts [OF published_stream [of e n acc l "chunks r"]] by simp
  from completion_loop_first_request [OF rec] obtain more where
    "requests later = ?conv # more" by blast
  then have "requests effs = conv # ?conv # more"
    by (simp add: effs requests_append rt rp)
  moreover from res have "ToolMessage (alert_result toolCall) \<in> set ?conv" by simp
  moreover from tw have "TwilioCreate (alert_sms e (message ctx)) \<in> set effs" by (simp add: effs)
  ultimately show ?thesis by blast
qed

section \<open>The turn: final publish and alerts\<close>

lemma catch_block_facts:
  "filter is_alert (fst (catch_block e n)) = [] \<and> fst (catch_block e n) \<noteq> [] \<and>
   last (fst (catch_block e n)) \<noteq> IndicatorClear"
  by (simp add: catch_block_def)

lemma finish_turn_facts:
  "filter is_alert (fst (finish_turn e n out)) = [] \<and> fst (finish_turn e n out) \<noteq> [] \<and>
   (last (fst (finish_turn e n out)) = IndicatorClear \<longrightarrow> out \<noteq> Throws)"
  by (cases out) (simp_all add: finish_turn_def catch_block_facts)

lemma finish_turn_reliable:
  "reliable_transport e \<Longrightarrow>
   finish_turn e n out =
     (case out of
        Returns accumulatedText \<Rightarrow> ([FinalUpdate (trim accumulatedText), IndicatorClear], Returns ())
      | Throws \<Rightarrow> ([IndicatorUpdate ''AI_STATE_ERROR'', FinalUpdate fallback_text], Returns ()))"
  by (cases out) (simp_all add: finish_turn_def catch_block_def reliable_transport_def)

lemma handleMessage_cases:
  assumes "handleMessage e ctx prompt hist t0 provider = Some (trace, res)"
  shows "trace = [SendMessage] \<or> trace = [SendMessage, IndicatorUpdate ''AI_STATE_THINKING''] \<or>
     (chat_transport e 0 \<and> chat_transport e 1 \<and>
      (\<exists>effs out.
         completion_loop e ctx provider (build_conversation prompt hist (message ctx)) [] t0 2
            = Some (effs, out) \<and>
         trace = SendMessage # IndicatorUpdate ''AI_STATE_THINKING'' # effs
                   @ fst (finish_turn e (2 + length (filter is_preview effs)) out) \<and>
         res = snd (finish_turn e (2 + length (filter is_preview effs)) out)))"
proof (cases "chat_transport e 0 \<and> chat_transport e 1")
  case False
  with assms show ?thesis by (auto simp: handleMessage_def split: if_splits)
next
  case True
  show ?thesis
  proof (cases "completion_loop e ctx provider (build_conversation prompt hist (message ctx)) [] t0 2")
    case None
    with assms True show ?thesis by (simp add: handleMessage_def)
  next
    case (Some r)
    obtain effs out where "r = (effs, out)" by (cases r)
    with Some assms True show ?thesis by (auto simp: handleMessage_def)
  qed
qed

lemma handleMessage_through:
  assumes "chat_transport e 0" "chat_transport e 1"
    and "handleMessage e ctx prompt hist t0 provider = Some (trace, res)"
  shows "\<exists>effs out.
         completion_loop e ctx provider (build_conversation prompt hist (message ctx)) [] t0 2
            = Some (effs, out) \<and>
         trace = SendMessage # IndicatorUpdate ''AI_STATE_THINKING'' # effs
                   @ fst (finish_turn e (2 + length (filter is_preview effs)) out) \<and>
         res = snd (finish_turn e (2 + length (filter is_preview effs)) out)"
proof (cases "completion_loop e ctx provider (build_conversation prompt hist (message ctx)) [] t0 2")
  case None
  with assms show ?thesis by (simp add: handleMessage_def)
next
  case (Some r)
  obtain effs out where "r = (effs, out)" by (cases r)
  with Some assms show ?thesis by (auto simp: handleMessage_def)
qed

lemma handleMessage_ends:
  assumes "list_ex final_round provider"
  shows "handleMessage e ctx prompt hist t0 provider \<noteq> None"
  using completion_loop_ends [OF assms, of e ctx "build_conversation prompt hist (message ctx)" "[]" t0 2]
  by (auto simp: handleMessage_def)

lemma loop_effect_not_final: "list_all loop_effect effs \<Longrightarrow> filter is_final_update effs = []"
proof (induction effs)
  case Nil
  then show ?case by simp
next
  case (Cons x xs)
  then show ?case by (cases x) simp_all
qed

text \<open>
  C1 (as the code has it).  A turn ends when the provider's answers contain a round at
  which the loop stops (its stream fails, or it accumulates no tool call).  When every
  call of the chat transport resolves, a turn that ends returns normally and publishes
  exactly one final message.  Its trace is the reply message and the thinking indicator,
  then effects of the loop only (requests, previews, searches, alerts), then: when the
  provider answers (\<open>answer_text\<close> gives the content of the round that carries no tool
  call), the final publish of that content, trimmed, followed by
  \<^verbatim>\<open>ai_indicator.clear\<close>; otherwise the \<^verbatim>\<open>AI_STATE_ERROR\<close> indicator followed by the
  final publish of the fixed fallback envelope.  A provider whose stream fails at the
  round where the loop stops gives no answer, so its turn takes the second path.
\<close>

theorem handleMessage_final_publish:
  "(list_ex final_round provider \<longrightarrow> handleMessage e ctx prompt hist t0 provider \<noteq> None) \<and>
   (reliable_transport e \<and> handleMessage e ctx prompt hist t0 provider = Some (trace, res) \<longrightarrow>
      res = Returns () \<and>
      length (filter is_final_update trace) = 1 \<and>
      (\<exists>effs. list_all loop_effect effs \<and>
         trace = SendMessage # IndicatorUpdate ''AI_STATE_THINKING'' # effs
                   @ (case answer_text e ctx provider of
                        Some text \<Rightarrow> [FinalUpdate (trim text), IndicatorClear]
                      | None \<Rightarrow> [IndicatorUpdate ''AI_STATE_ERROR'', FinalUpdate fallback_text]))) \<and>
   (provider_error provider \<longrightarrow> answer_text e ctx provider = None)"
proof (intro conjI impI)
  assume "list_ex final_round provider"
  then show "handleMessage e ctx prompt hist t0 provider \<noteq> None" by (rule handleMessage_ends)
next
  assume "provider_error provider"
  then show "answer_text e ctx provider = None" by (rule provider_error_no_answer)
next
  assume a: "reliable_transport e \<and> handleMessage e ctx prompt hist t0 provider = Some (trace, res)"
  then have rel: "reliable_transport e"
    and h: "handleMessage e ctx prompt hist t0 provider = Some (trace, res)" by simp_all
  from rel have t01: "chat_transport e 0" "chat_transport e 1" by (simp_all add: reliable_transport_def)
  from handleMessage_through [OF t01 h] obtain effs out where
    loop: "completion_loop e ctx provider (build_conversation prompt hist (message ctx)) [] t0 2
            = Some (effs, out)"
    and t: "trace = SendMessage # IndicatorUpdate ''AI_STATE_THINKING'' # effs
                   @ fst (finish_turn e (2 + length (filter is_preview effs)) out)"
    and r: "res = snd (finish_turn e (2 + length (filter is_preview effs)) out)"
    by blast
  from completion_loop_effects [OF loop] have le: "list_all loop_effect effs" by simp
  then have nf: "filter is_final_update effs = []" by (rule loop_effect_not_final)
  from completion_loop_answer [OF rel loop]
  have out: "out = (case answer_text e ctx provider of
            Some text \<Rightarrow> Returns text | None \<Rightarrow> Throws)"
    by (cases "answer_text e ctx provider") simp_all
  note fin = finish_turn_reliable [OF rel, of "2 + length (filter is_preview effs)" out]
  show "res = Returns ()" using r fin by (cases out) simp_all
  show "length (filter is_final_update trace) = 1"
    using t nf fin by (cases out) simp_all
  have "trace = SendMessage # IndicatorUpdate ''AI_STATE_THINKING'' # effs
                   @ (case answer_text e ctx provider of
                        Some text \<Rightarrow> [FinalUpdate (trim text), IndicatorClear]
                      | None \<Rightarrow> [IndicatorUpdate ''AI_STATE_ERROR'', FinalUpdate fallback_text])"
    using t fin out by (cases "answer_text e ctx provider") simp_all
  with le show "\<exists>effs. list_all loop_effect effs \<and>
         trace = SendMessage # IndicatorUpdate ''AI_STATE_THINKING'' # effs
                   @ (case answer_text e ctx provider of
                        Some text \<Rightarrow> [FinalUpdate (trim text), IndicatorClear]
                      | None \<Rightarrow> [IndicatorUpdate ''AI_STATE_ERROR'', FinalUpdate fallback_text])"
    by blast
qed

text \<open>
  C2 (as the code has it).  In a turn that ends, \<^verbatim>\<open>sendEmergencyAlert\<close> is invoked at
  most once for each accumulated tool call named \<^verbatim>\<open>tool_alert\<close> of the rounds the
  loop went through (the fragments of one index are one call), hence never without such
  a call; when the turn ends with \<^verbatim>\<open>ai_indicator.clear\<close> it is invoked exactly once
  for each of them; and when every call of the chat transport resolves the turn
  publishes exactly one final message.
\<close>

theorem alerts_follow_requests:
  "(list_ex final_round provider \<longrightarrow> handleMessage e ctx prompt hist t0 provider \<noteq> None) \<and>
   (handleMessage e ctx prompt hist t0 provider = Some (trace, res) \<longrightarrow>
      length (filter is_alert trace) \<le> requested_alerts provider \<and>
      (last trace = IndicatorClear \<longrightarrow> length (filter is_alert trace) = requested_alerts provider) \<and>
      (reliable_transport e \<longrightarrow> length (filter is_final_update trace) = 1))"
proof (intro conjI impI)
  assume "list_ex final_round provider"
  then show "handleMessage e ctx prompt hist t0 provider \<noteq> None" by (rule handleMessage_ends)
next
  assume h: "handleMessage e ctx prompt hist t0 provider = Some (trace, res)"
  show "length (filter is_final_update trace) = 1" if "reliable_transport e"
  proof -
    from that have t01: "chat_transport e 0" "chat_transport e 1"
      by (simp_all add: reliable_transport_def)
    from handleMessage_through [OF t01 h] obtain effs out where
      loop: "completion_loop e ctx provider (build_conversation prompt hist (message ctx)) [] t0 2
              = Some (effs, out)"
      and t: "trace = SendMessage # IndicatorUpdate ''AI_STATE_THINKING'' # effs
                     @ fst (finish_turn e (2 + length (filter is_preview effs)) out)"
      by blast
    from completion_loop_effects [OF loop] have "list_all loop_effect effs" by simp
    then have nf: "filter is_final_update effs = []" by (rule loop_effect_not_final)
    from t nf finish_turn_reliable [OF that, of "2 + length (filter is_preview effs)" out]
    show ?thesis by (cases out) simp_all
  qed
  from handleMessage_cases [OF h]
  consider "trace = [SendMessage]" | "trace = [SendMessage, IndicatorUpdate ''AI_STATE_THINKING'']"
    | effs out where
      "completion_loop e ctx provider (build_conversation prompt hist (message ctx)) [] t0 2
              = Some (effs, out)"
      "trace = SendMessage # IndicatorUpdate ''AI_STATE_THINKING'' # effs
                     @ fst (finish_turn e (2 + length (filter is_preview effs)) out)"
    by blast
  then show "length (filter is_alert trace) \<le> requested_alerts provider"
  proof cases
    case 3
    from completion_loop_effects [OF 3(1)] finish_turn_facts [of e "2 + length (filter is_preview effs)" out]
    show ?thesis by (simp add: 3(2))
  qed simp_all
  assume cl: "last trace = IndicatorClear"
  from handleMessage_cases [OF h]
  consider "trace = [SendMessage]" | "trace = [SendMessage, IndicatorUpdate ''AI_STATE_THINKING'']"
    | effs out where
      "completion_loop e ctx provider (build_conversation prompt hist (message ctx)) [] t0 2
              = Some (effs, out)"
      "trace = SendMessage # IndicatorUpdate ''AI_STATE_THINKING'' # effs
                     @ fst (finish_turn e (2 + length (filter is_preview effs)) out)"
    by blast
  then show "length (filter is_alert trace) = requested_alerts provider"
  proof cases
    case 1
    with cl show ?thesis by simp
  next
    case 2
    with cl show ?thesis by simp
  next
    case 3
    note f = finish_turn_facts [of e "2 + length (filter is_preview effs)" out]
    from cl 3(2) f have "last (fst (finish_turn e (2 + length (filter is_preview effs)) out)) = IndicatorClear"
      by simp
    with f have "out \<noteq> Throws" by simp
    with completion_loop_effects [OF 3(1)] f show ?thesis by (simp add: 3(2))
  qed
qed

text \<open>
  C10.  \<^verbatim>\<open>sendEmergencyAlert\<close> always returns a boolean, \<^verbatim>\<open>false\<close> when the SMS
  provider throws; the dispatch of a \<^verbatim>\<open>tool_alert\<close> call whose arguments parse
  pushes the tool result with the fixed content, whatever the SMS provider did; and in
  the loop, a round that accumulates a \<^verbatim>\<open>tool_alert\<close> call and whose dispatch does not
  throw is followed by a second request to the provider whose conversation holds, for
  that call, the tool message with the fixed content, the SMS having been attempted.
\<close>

theorem alert_result_fixed:
  "(\<exists>sent. snd (sendEmergencyAlert e userMessage) = Returns sent) \<and>
   (twilio_create e (alert_sms e userMessage) = Throws \<longrightarrow>
      snd (sendEmergencyAlert e userMessage) = Returns False) \<and>
   (tc_name toolCall = ''tool_alert'' \<and> json_parse e (tc_arguments toolCall) \<noteq> None \<longrightarrow>
      process_tool_call e ctx (Some toolCall) =
        ([TwilioCreate (alert_sms e (message ctx))],
         Returns (Some \<lparr>tool_call_id = tc_id toolCall, tr_role = ''tool'',
                        tr_name = ''tool_alert'',
                        tr_content = ''Emergency alert sent successfully.''\<rparr>))) \<and>
   (tc_name toolCall = ''tool_alert'' \<and> Some toolCall \<in> set (round_tool_calls r) \<and>
    \<not> aborted (consume_stream e n acc l (chunks r)) \<and> \<not> stream_fails r \<and>
    snd (process_tool_calls e ctx (round_tool_calls r) []) \<noteq> Throws \<and>
    completion_loop e ctx (r # rest) conv acc l n = Some (effs, out) \<longrightarrow>
      (\<exists>conv' more.
          requests effs = conv # conv' # more \<and>
          ToolMessage \<lparr>tool_call_id = tc_id toolCall, tr_role = ''tool'',
                       tr_name = ''tool_alert'',
                       tr_content = ''Emergency alert sent successfully.''\<rparr> \<in> set conv' \<and>
          TwilioCreate (alert_sms e (message ctx)) \<in> set effs))"
proof (intro conjI impI)
  show "\<exists>sent. snd (sendEmergencyAlert e userMessage) = Returns sent"
    by (simp add: sendEmergencyAlert_returns)
  show "snd (sendEmergencyAlert e userMessage) = Returns False"
    if "twilio_create e (alert_sms e userMessage) = Throws"
    using that by (simp add: sendEmergencyAlert_returns)
  show "process_tool_call e ctx (Some toolCall) =
        ([TwilioCreate (alert_sms e (message ctx))],
         Returns (Some \<lparr>tool_call_id = tc_id toolCall, tr_role = ''tool'',
                        tr_name = ''tool_alert'',
                        tr_content = ''Emergency alert sent successfully.''\<rparr>))"
    if "tc_name toolCall = ''tool_alert'' \<and> json_parse e (tc_arguments toolCall) \<noteq> None"
  proof -
    have "fst (sendEmergencyAlert e (message ctx)) = [TwilioCreate (alert_sms e (message ctx))]"
      by (simp add: sendEmergencyAlert_def)
    with that show ?thesis
      by (auto simp: process_tool_call_def dispatch_alert_def sendEmergencyAlert_returns)
  qed
  show "\<exists>conv' more.
          requests effs = conv # conv' # more \<and>
          ToolMessage \<lparr>tool_call_id = tc_id toolCall, tr_role = ''tool'',
                       tr_name = ''tool_alert'',
                       tr_content = ''Emergency alert sent successfully.''\<rparr> \<in> set conv' \<and>
          TwilioCreate (alert_sms e (message ctx)) \<in> set effs"
    if "tc_name toolCall = ''tool_alert'' \<and> Some toolCall \<in> set (round_tool_calls r) \<and>
    \<not> aborted (consume_stream e n acc l (chunks r)) \<and> \<not> stream_fails r \<and>
    snd (process_tool_calls e ctx (round_tool_calls r) []) \<noteq> Throws \<and>
    completion_loop e ctx (r # rest) conv acc l n = Some (effs, out)"
    using that completion_loop_feeds_alert [of e n acc l r toolCall ctx rest conv effs out]
    by (simp add: alert_result_def)
qed

section \<open>Runs on the sample inputs\<close>

lemmas stream_eval = consume_stream_def consume_chunk_def text_chunk_def calls_chunk_def
  str_or_def merge_tool_call_delta_def get_at_def set_at_def Let_def

lemmas tool_eval = process_tool_call_def dispatch_alert_def dispatch_search_def
  search_result_def searchWeb_def sendEmergencyAlert_def try_catch_def sample_env_def
  sample_parse_def

lemmas round_eval = final_round_def round_tool_calls_def round_content_def timed_deltas_def
  merge_timed_def

lemmas turn_eval = handleMessage_def finish_turn_def catch_block_def build_conversation_def

lemmas sample_rounds = one_alert_provider_def alert_round_def closing_round_def
  two_alerts_provider_def failing_provider_def answering_provider_def

lemma reliable_sample: "reliable_transport sample_env"
  by (simp add: reliable_transport_def sample_env_def)

theorem search_query_enhanced_witness:
  "has_location sample_ctx \<and> tc_name search_call = ''tool_search'' \<and>
   json_parse sample_env (tc_arguments search_call)
     = Some (JObj [(''query'', JStr ''hospital near me'')]) \<and>
   get_prop (JObj [(''query'', JStr ''hospital near me'')]) ''query''
     = PropValue (JStr ''hospital near me'') \<and>
   isLocationQuery ''hospital near me'' \<and>
   fst (process_tool_call sample_env sample_ctx (Some search_call))
     = [TavilySearch (Some (JStr (''hospital near me'' @ '' '' @ ''Chennai, India'' @ '' (''
          @ number_string sample_env 13 @ '','' @ number_string sample_env 80 @ '')'')))]"
proof -
  have h1: "has_location sample_ctx" by (simp add: has_location_def sample_ctx_def)
  have h2: "tc_name search_call = ''tool_search''" by (simp add: search_call_def)
  have h3: "json_parse sample_env (tc_arguments search_call)
     = Some (JObj [(''query'', JStr ''hospital near me'')])"
    by (simp add: sample_env_def sample_parse_def search_call_def)
  have h4: "get_prop (JObj [(''query'', JStr ''hospital near me'')]) ''query''
     = PropValue (JStr ''hospital near me'')" by simp
  have h5: "isLocationQuery ''hospital near me''"
    by (simp add: isLocationQuery_def toLowerCase_def lower_char_def)
  from search_query_enhanced [OF h1 h2 h3 h4 h5] h1 h2 h3 h4 h5
  show ?thesis by (auto simp: sample_ctx_def)
qed

theorem unknown_tool_skipped_witness:
  "tc_name weather_call \<noteq> ''tool_search'' \<and> tc_name weather_call \<noteq> ''tool_alert'' \<and>
   json_parse sample_env (tc_arguments weather_call) \<noteq> None \<and>
   process_tool_call sample_env sample_ctx (Some weather_call) = ([], Returns None) \<and>
   process_tool_calls sample_env sample_ctx [Some weather_call, Some alert_call] []
     = process_tool_calls sample_env sample_ctx [Some alert_call] []"
proof -
  have h1: "tc_name weather_call \<noteq> ''tool_search''" by (simp add: weather_call_def)
  have h2: "tc_name weather_call \<noteq> ''tool_alert''" by (simp add: weather_call_def)
  have h3: "json_parse sample_env (tc_arguments weather_call) = Some (JObj [])"
    by (simp add: sample_env_def sample_parse_def weather_call_def)
  from unknown_tool_skipped [OF h1 h2, of sample_env sample_ctx "[Some alert_call]" "[]"] h1 h2 h3
  show ?thesis by simp
qed

text \<open>
  C9 (as the claim states it) fails: after a round whose only call names
  \<^verbatim>\<open>tool_weather\<close> the list of tool results is empty.
\<close>

theorem unknown_tool_no_result:
  "process_tool_calls sample_env sample_ctx [Some weather_call] [] = ([], Returns [])"
  by (simp add: weather_call_def tool_eval)

text \<open>
  C1 (as the claim states it) fails: the final publish and the \<^verbatim>\<open>ai_indicator.clear\<close>
  event are both inside the \<^verbatim>\<open>try\<close> block, so when the transport rejects the clear
  event after the answer was published, the \<^verbatim>\<open>catch\<close> block publishes the fallback
  envelope as well: two final publishes in one turn.
\<close>

theorem clear_rejection_publishes_twice:
  "handleMessage clear_rejecting_env sample_ctx ''be kind'' [] 0 answering_provider =
     Some ([SendMessage, IndicatorUpdate ''AI_STATE_THINKING'',
            CreateCompletion [Plain \<lparr>role = ''system'', content = ''be kind''\<rparr>,
                              Plain \<lparr>role = ''user'', content = ''hospital near me''\<rparr>],
            FinalUpdate ''Drink water.'', IndicatorClear,
            IndicatorUpdate ''AI_STATE_ERROR'', FinalUpdate fallback_text],
           Returns ())"
  by (simp add: turn_eval sample_rounds clear_rejecting_env_def sample_env_def sample_ctx_def
      stream_eval trim_def is_js_space_def)

theorem handleMessage_final_publish_witness:
  "reliable_transport sample_env \<and>
   list_ex final_round failing_provider \<and> provider_error failing_provider \<and>
   answer_text sample_env sample_ctx failing_provider = None \<and>
   handleMessage sample_env sample_ctx ''be kind'' [] 0 failing_provider =
     Some ([SendMessage, IndicatorUpdate ''AI_STATE_THINKING'',
            CreateCompletion [Plain \<lparr>role = ''system'', content = ''be kind''\<rparr>,
                              Plain \<lparr>role = ''user'', content = ''hospital near me''\<rparr>],
            IndicatorUpdate ''AI_STATE_ERROR'', FinalUpdate fallback_text], Returns ()) \<and>
   list_ex final_round answering_provider \<and>
   answer_text sample_env sample_ctx answering_provider = Some ''Drink water. '' \<and>
   handleMessage sample_env sample_ctx ''be kind'' [] 0 answering_provider =
     Some ([SendMessage, IndicatorUpdate ''AI_STATE_THINKING'',
            CreateCompletion [Plain \<lparr>role = ''system'', content = ''be kind''\<rparr>,
                              Plain \<lparr>role = ''user'', content = ''hospital near me''\<rparr>],
            FinalUpdate ''Drink water.'', IndicatorClear], Returns ()) \<and>
   length (filter is_final_update
     [SendMessage, IndicatorUpdate ''AI_STATE_THINKING'',
      CreateCompletion [Plain \<lparr>role = ''system'', content = ''be kind''\<rparr>,
                        Plain \<lparr>role = ''user'', content = ''hospital near me''\<rparr>],
      FinalUpdate ''Drink water.'', IndicatorClear]) = 1"
proof -
  have f: "list_ex final_round failing_provider"
    by (simp add: sample_rounds final_round_def)
  have p: "provider_error failing_provider"
    by (simp add: sample_rounds)
  have n: "answer_text sample_env sample_ctx failing_provider = None"
    by (simp add: sample_rounds)
  have a: "list_ex final_round answering_provider"
    by (simp add: sample_rounds round_eval text_chunk_def)
  have t: "answer_text sample_env sample_ctx answering_provider = Some ''Drink water. ''"
    by (simp add: sample_rounds round_eval text_chunk_def str_or_def)
  have run: "handleMessage sample_env sample_ctx ''be kind'' [] 0 answering_provider =
     Some ([SendMessage, IndicatorUpdate ''AI_STATE_THINKING'',
            CreateCompletion [Plain \<lparr>role = ''system'', content = ''be kind''\<rparr>,
                              Plain \<lparr>role = ''user'', content = ''hospital near me''\<rparr>],
            FinalUpdate ''Drink water.'', IndicatorClear], Returns ())"
    by (simp add: turn_eval sample_rounds sample_env_def sample_ctx_def stream_eval trim_def
        is_js_space_def)
  have fail: "handleMessage sample_env sample_ctx ''be kind'' [] 0 failing_provider =
     Some ([SendMessage, IndicatorUpdate ''AI_STATE_THINKING'',
            CreateCompletion [Plain \<lparr>role = ''system'', content = ''be kind''\<rparr>,
                              Plain \<lparr>role = ''user'', content = ''hospital near me''\<rparr>],
            IndicatorUpdate ''AI_STATE_ERROR'', FinalUpdate fallback_text], Returns ())"
    by (simp add: turn_eval sample_rounds sample_env_def sample_ctx_def stream_eval)
  from handleMessage_final_publish [of answering_provider sample_env sample_ctx "''be kind''" "[]" 0]
    reliable_sample run
  have "length (filter is_final_update
     [SendMessage, IndicatorUpdate ''AI_STATE_THINKING'',
      CreateCompletion [Plain \<lparr>role = ''system'', content = ''be kind''\<rparr>,
                        Plain \<lparr>role = ''user'', content = ''hospital near me''\<rparr>],
      FinalUpdate ''Drink water.'', IndicatorClear]) = 1"
    by blast
  with reliable_sample f p n a t run fail show ?thesis by blast
qed

text \<open>
  C2 (as the claim states it) fails: a round that streams two calls of \<^verbatim>\<open>tool_alert\<close>,
  at the indices 0 and 1, sends two alerts in one turn.
\<close>

theorem two_alerts_in_one_turn:
  "filter is_alert (fst (the (handleMessage sample_env crisis_ctx ''be kind'' [] 0 two_alerts_provider)))
     = [TwilioCreate (alert_sms sample_env ''I want to end my life''),
        TwilioCreate (alert_sms sample_env ''I want to end my life'')]"
  by (simp add: turn_eval sample_rounds crisis_ctx_def stream_eval
      process_tool_call_def dispatch_alert_def sendEmergencyAlert_def try_catch_def
      sample_env_def sample_parse_def)

theorem alerts_follow_requests_witness:
  "list_ex final_round one_alert_provider \<and>
   handleMessage sample_env crisis_ctx ''be kind'' [] 0 one_alert_provider \<noteq> None \<and>
   requested_alerts one_alert_provider = 1 \<and>
   filter is_alert (fst (the (handleMessage sample_env crisis_ctx ''be kind'' [] 0 one_alert_provider)))
     = [TwilioCreate (alert_sms sample_env ''I want to end my life'')] \<and>
   last (fst (the (handleMessage sample_env crisis_ctx ''be kind'' [] 0 one_alert_provider)))
     = IndicatorClear \<and>
   reliable_transport sample_env \<and>
   length (filter is_final_update
      (fst (the (handleMessage sample_env crisis_ctx ''be kind'' [] 0 one_alert_provider)))) = 1"
proof -
  have f: "list_ex final_round one_alert_provider"
    by (simp add: sample_rounds round_eval stream_eval)
  have r: "requested_alerts one_alert_provider = 1"
    by (simp add: sample_rounds round_eval alert_calls_def stream_eval)
  have run: "filter is_alert (fst (the (handleMessage sample_env crisis_ctx ''be kind'' [] 0 one_alert_provider)))
     = [TwilioCreate (alert_sms sample_env ''I want to end my life'')] \<and>
   last (fst (the (handleMessage sample_env crisis_ctx ''be kind'' [] 0 one_alert_provider)))
     = IndicatorClear"
    by (simp add: turn_eval sample_rounds crisis_ctx_def stream_eval tool_eval)
  from alerts_follow_requests [of one_alert_provider sample_env crisis_ctx "''be kind''" "[]" 0] f
  obtain trace res where
    h: "handleMessage sample_env crisis_ctx ''be kind'' [] 0 one_alert_provider = Some (trace, res)"
    by fastforce
  from alerts_follow_requests [of one_alert_provider sample_env crisis_ctx "''be kind''" "[]" 0 trace res]
    h reliable_sample
  have "length (filter is_final_update trace) = 1" by blast
  with h f r run reliable_sample show ?thesis by simp
qed

theorem alert_result_fixed_witness:
  "twilio_create sample_env (alert_sms sample_env ''I want to end my life'') = Throws \<and>
   snd (sendEmergencyAlert sample_env ''I want to end my life'') = Returns False \<and>
   tc_name streamed_alert_call = ''tool_alert'' \<and>
   json_parse sample_env (tc_arguments streamed_alert_call) \<noteq> None \<and>
   process_tool_call sample_env crisis_ctx (Some streamed_alert_call) =
     ([TwilioCreate (alert_sms sample_env ''I want to end my life'')],
      Returns (Some \<lparr>tool_call_id = ''call_a'', tr_role = ''tool'', tr_name = ''tool_alert'',
                     tr_content = ''Emergency alert sent successfully.''\<rparr>)) \<and>
   Some streamed_alert_call \<in> set (round_tool_calls alert_round) \<and>
   \<not> aborted (consume_stream sample_env 2 [] 0 (chunks alert_round)) \<and>
   \<not> stream_fails alert_round \<and>
   snd (process_tool_calls sample_env crisis_ctx (round_tool_calls alert_round) []) \<noteq> Throws \<and>
   requests (fst (the (completion_loop sample_env crisis_ctx [alert_round, closing_round]
        [Plain \<lparr>role = ''user'', content = ''I want to end my life''\<rparr>] [] 0 2))) =
     [[Plain \<lparr>role = ''user'', content = ''I want to end my life''\<rparr>],
      [Plain \<lparr>role = ''user'', content = ''I want to end my life''\<rparr>,
       AssistantCalls None [Some streamed_alert_call],
       ToolMessage \<lparr>tool_call_id = ''call_a'', tr_role = ''tool'', tr_name = ''tool_alert'',
                    tr_content = ''Emergency alert sent successfully.''\<rparr>]]"
proof -
  have h1: "twilio_create sample_env (alert_sms sample_env ''I want to end my life'') = Throws"
    by (simp add: sample_env_def)
  have h2: "tc_name streamed_alert_call = ''tool_alert''" by (simp add: streamed_alert_call_def)
  have h3: "json_parse sample_env (tc_arguments streamed_alert_call) \<noteq> None"
    by (simp add: sample_env_def sample_parse_def streamed_alert_call_def)
  have m: "message crisis_ctx = ''I want to end my life''" "tc_id streamed_alert_call = ''call_a''"
    by (simp_all add: crisis_ctx_def streamed_alert_call_def)
  have rt: "round_tool_calls alert_round = [Some streamed_alert_call]"
    by (simp add: sample_rounds round_eval stream_eval streamed_alert_call_def)
  have h4: "Some streamed_alert_call \<in> set (round_tool_calls alert_round)" by (simp add: rt)
  have h5: "\<not> aborted (consume_stream sample_env 2 [] 0 (chunks alert_round))"
    by (rule reliable_stream [OF reliable_sample])
  have h6: "\<not> stream_fails alert_round" by (simp add: sample_rounds)
  have h7: "snd (process_tool_calls sample_env crisis_ctx (round_tool_calls alert_round) []) \<noteq> Throws"
    by (simp add: rt streamed_alert_call_def tool_eval)
  have run: "requests (fst (the (completion_loop sample_env crisis_ctx [alert_round, closing_round]
        [Plain \<lparr>role = ''user'', content = ''I want to end my life''\<rparr>] [] 0 2))) =
     [[Plain \<lparr>role = ''user'', content = ''I want to end my life''\<rparr>],
      [Plain \<lparr>role = ''user'', content = ''I want to end my life''\<rparr>,
       AssistantCalls None [Some streamed_alert_call],
       ToolMessage \<lparr>tool_call_id = ''call_a'', tr_role = ''tool'', tr_name = ''tool_alert'',
                    tr_content = ''Emergency alert sent successfully.''\<rparr>]]"
    by (simp add: sample_rounds stream_eval tool_eval streamed_alert_call_def)
  from alert_result_fixed [of sample_env "''I want to end my life''" streamed_alert_call crisis_ctx]
    h1 h2 h3 m
  have "snd (sendEmergencyAlert sample_env ''I want to end my life'') = Returns False"
    "process_tool_call sample_env crisis_ctx (Some streamed_alert_call) =
     ([TwilioCreate (alert_sms sample_env ''I want to end my life'')],
      Returns (Some \<lparr>tool_call_id = ''call_a'', tr_role = ''tool'', tr_name = ''tool_alert'',
                     tr_content = ''Emergency alert sent successfully.''\<rparr>))"
    by simp_all
  with h1 h2 h3 h4 h5 h6 h7 run show ?thesis by blast
qed

theorem tool_calls_reassembled_witness:
  "\<not> aborted (consume_stream sample_env 2 [] 0 split_stream) \<and>
   \<not> aborted (consume_stream sample_env 2 [] 0 whole_stream) \<and>
   call_texts (toolCalls (consume_stream sample_env 2 [] 0 split_stream))
     = call_texts (toolCalls (consume_stream sample_env 2 [] 0 whole_stream)) \<and>
   call_texts (toolCalls (consume_stream sample_env 2 [] 0 whole_stream))
     = [Some (tc_name search_call, tc_arguments search_call),
        Some (tc_name alert_call, tc_arguments alert_call),
        Some (tc_name weather_call, tc_arguments weather_call)]"
proof -
  have s: "\<not> aborted (consume_stream sample_env 2 [] 0 split_stream)"
    by (rule reliable_stream [OF reliable_sample])
  have w: "\<not> aborted (consume_stream sample_env 2 [] 0 whole_stream)"
    by (rule reliable_stream [OF reliable_sample])
  have m: "mentioned i (stream_deltas split_stream) = mentioned i (stream_deltas whole_stream)" for i
    by (auto simp: mentioned_def stream_deltas_def split_stream_def whole_stream_def calls_chunk_def)
  have n: "name_fragments i (stream_deltas split_stream) = name_fragments i (stream_deltas whole_stream)" for i
    by (auto simp: name_fragments_def stream_deltas_def split_stream_def whole_stream_def
        calls_chunk_def str_or_def)
  have a: "argument_fragments i (stream_deltas split_stream)
      = argument_fragments i (stream_deltas whole_stream)" for i
    by (auto simp: argument_fragments_def stream_deltas_def split_stream_def whole_stream_def
        calls_chunk_def str_or_def)
  have e: "call_texts (toolCalls (consume_stream sample_env 2 [] 0 whole_stream))
     = [Some (tc_name search_call, tc_arguments search_call),
        Some (tc_name alert_call, tc_arguments alert_call),
        Some (tc_name weather_call, tc_arguments weather_call)]"
    by (simp add: call_texts_def whole_stream_def search_call_def alert_call_def weather_call_def
        stream_eval sample_env_def)
  from tool_calls_reassembled [OF s, of "[]" sample_env 2 "[]" 0 whole_stream] w m n a
  have "call_texts (toolCalls (consume_stream sample_env 2 [] 0 split_stream))
     = call_texts (toolCalls (consume_stream sample_env 2 [] 0 whole_stream))"
    by blast
  with s w e show ?thesis by blast
qed

section \<open>The streaming decoder on unclosed text values\<close>

lemma match_field_at_prefix: "match_field_at key scan s = Some g \<Longrightarrow> prefix key s"
  by (simp add: match_field_at_def split: if_splits)

lemma open_body_quote: "\<not> open_body (dquote # r)"
  by (cases r) simp_all

lemma open_body_scan: "open_body b \<Longrightarrow> scan_body b = None"
  by (induction b rule: open_body.induct) (auto split: if_splits)

lemma not_quote_no_match: "c \<noteq> dquote \<Longrightarrow> match_field_at text_key scan (c # cs) = None"
  by (simp add: match_field_at_def text_key_def dquote_def)

lemma open_body_after_quote:
  assumes "open_body ds" shows "match_field_at text_key scan (dquote # ds) = None"
proof (rule ccontr)
  assume "match_field_at text_key scan (dquote # ds) \<noteq> None"
  then obtain g where "match_field_at text_key scan (dquote # ds) = Some g" by auto
  then have "prefix text_key (dquote # ds)" by (rule match_field_at_prefix)
  then obtain r where "ds = CHR ''t'' # CHR ''e'' # CHR ''x'' # CHR ''t'' # dquote # r"
    by (auto simp: text_key_def dquote_def prefix_def)
  with assms open_body_quote [of r] show False
    by (simp add: dquote_def backslash_def)
qed

lemma open_body_no_match: "open_body b \<Longrightarrow> match_field text_key scan b = None"
proof (induction b rule: open_body.induct)
  case 1
  then show ?case by simp
next
  case (2 c)
  then show ?case by (simp add: not_quote_no_match)
next
  case (3 c d ds)
  from "3.prems" have c: "c \<noteq> dquote" by (auto split: if_splits)
  show ?case
  proof (cases "c = backslash")
    case True
    with "3.prems" c have ob: "open_body ds" by simp
    with "3.IH"(1) c True "3.prems" have rest: "match_field text_key scan ds = None" by simp
    have "match_field_at text_key scan (d # ds) = None"
      using open_body_after_quote [OF ob] not_quote_no_match [of d] by (cases "d = dquote") auto
    with rest c show ?thesis by (simp add: not_quote_no_match)
  next
    case False
    with "3.prems" c have "open_body (d # ds)" by simp
    with "3.IH"(2) c False have "match_field text_key scan (d # ds) = None" by simp
    with c show ?thesis by (simp add: not_quote_no_match)
  qed
qed

lemma skip_non_quotes:
  "list_all (\<lambda>c. c \<noteq> dquote) xs \<Longrightarrow> match_field text_key scan (xs @ s) = match_field text_key scan s"
  by (induction xs) (simp_all add: not_quote_no_match)

lemma space_not_quote: "is_js_space c \<Longrightarrow> c \<noteq> dquote"
  by (auto simp: is_js_space_def dquote_def)

lemma spaces_not_quotes: "list_all is_js_space ws \<Longrightarrow> list_all (\<lambda>c. c \<noteq> dquote) ws"
  by (induction ws) (simp_all add: space_not_quote)

lemma drop_spaces: "list_all is_js_space ws \<Longrightarrow> \<not> is_js_space c \<Longrightarrow>
    dropWhile is_js_space (ws @ c # r) = c # r"
  by (induction ws) simp_all

lemma field_at_key:
  assumes "list_all is_js_space ws1" "list_all is_js_space ws2"
  shows "match_field_at text_key scan (text_key @ ws1 @ CHR '':'' # ws2 @ dquote # body) = scan body"
proof -
  have c: "\<not> is_js_space CHR '':''" "\<not> is_js_space dquote"
    by (simp_all add: is_js_space_def dquote_def)
  show ?thesis
    using drop_spaces [OF assms(1) c(1)] drop_spaces [OF assms(2) c(2)]
    by (simp add: match_field_at_def)
qed

lemma key_overlap:
  assumes "prefix text_key (pre @ text_key @ rest)" "pre \<noteq> []"
  shows "prefix text_key_start pre"
proof (cases pre)
  case Nil
  with assms show ?thesis by simp
next
  case p1: (Cons a l1)
  show ?thesis
  proof (cases l1)
    case Nil
    with assms p1 show ?thesis by (simp add: text_key_def text_key_start_def)
  next
    case p2: (Cons b l2)
    show ?thesis
    proof (cases l2)
      case Nil
      with assms p1 p2 show ?thesis by (simp add: text_key_def text_key_start_def)
    next
      case p3: (Cons c l3)
      show ?thesis
      proof (cases l3)
        case Nil
        with assms p1 p2 p3 show ?thesis by (simp add: text_key_def text_key_start_def)
      next
        case p4: (Cons d l4)
        show ?thesis
        proof (cases l4)
          case Nil
          with assms p1 p2 p3 p4 show ?thesis by (simp add: text_key_def text_key_start_def)
        next
          case (Cons e l5)
          with assms p1 p2 p3 p4 show ?thesis by (auto simp: text_key_def text_key_start_def)
        qed
      qed
    qed
  qed
qed

lemma skip_prefix:
  "\<not> str_includes pre text_key_start \<Longrightarrow>
   match_field text_key scan (pre @ text_key @ rest) = match_field text_key scan (text_key @ rest)"
proof (induction pre)
  case Nil
  then show ?case by simp
next
  case (Cons c pre)
  then have np: "\<not> prefix text_key_start (c # pre)" and ni: "\<not> str_includes pre text_key_start"
    by simp_all
  have "match_field_at text_key scan ((c # pre) @ text_key @ rest) = None"
  proof (rule ccontr)
    assume "match_field_at text_key scan ((c # pre) @ text_key @ rest) \<noteq> None"
    then obtain g where "match_field_at text_key scan ((c # pre) @ text_key @ rest) = Some g"
      by auto
    then have "prefix text_key ((c # pre) @ text_key @ rest)" by (rule match_field_at_prefix)
    then have "prefix text_key_start (c # pre)" by (rule key_overlap) simp
    with np show False by simp
  qed
  with Cons.IH [OF ni] show ?case by simp
qed

lemma unclosed_no_match:
  assumes ws: "list_all is_js_space ws1" "list_all is_js_space ws2"
    and body: "open_body body"
    and pre: "\<not> str_includes pre text_key_start"
  shows "textMatch (pre @ text_key @ ws1 @ CHR '':'' # ws2 @ dquote # body) = None"
proof -
  let ?tail = "ws1 @ CHR '':'' # ws2 @ dquote # body"
  have at_key: "match_field_at text_key scan_body (text_key @ ?tail) = None"
    using field_at_key [OF ws, of scan_body body] open_body_scan [OF body] by simp
  have nq: "list_all (\<lambda>c. c \<noteq> dquote) (ws1 @ CHR '':'' # ws2)"
    using spaces_not_quotes [OF ws(1)] spaces_not_quotes [OF ws(2)] by (simp add: dquote_def)
  have inner: "match_field text_key scan_body (dquote # body) = None"
    using open_body_after_quote [OF body, of scan_body] open_body_no_match [OF body, of scan_body]
    by simp
  have after: "match_field text_key scan_body ?tail = None"
    using skip_non_quotes [OF nq, of scan_body "dquote # body"] inner by simp
  have closing: "match_field_at text_key scan_body (dquote # ?tail) = None"
  proof (rule ccontr)
    assume "match_field_at text_key scan_body (dquote # ?tail) \<noteq> None"
    then obtain g where "match_field_at text_key scan_body (dquote # ?tail) = Some g" by auto
    then have "prefix text_key (dquote # ?tail)" by (rule match_field_at_prefix)
    then have "prefix ''t'' ?tail" by (auto simp: text_key_def dquote_def prefix_def)
    with ws(1) show False
      by (cases ws1) (auto simp: is_js_space_def)
  qed
  have key: "match_field text_key scan_body (text_key @ ?tail) = None"
    using at_key closing after
    by (simp add: text_key_def not_quote_no_match [unfolded text_key_def] dquote_def)
  show ?thesis
    unfolding textMatch_def using skip_prefix [OF pre, of scan_body ?tail] key by simp
qed

lemma dropWhile_keeps_last:
  "\<not> P x \<Longrightarrow> \<exists>ys. dropWhile P (xs @ [x]) = ys @ [x]"
  by (induction xs) auto

lemma trim_brace:
  assumes "prefix ''{'' raw" shows "prefix ''{'' (trim raw)"
proof -
  from assms obtain r where raw: "raw = CHR ''{'' # r" by (auto simp: prefix_def)
  have ns: "\<not> is_js_space CHR ''{''" by (simp add: is_js_space_def)
  then have "dropWhile is_js_space raw = CHR ''{'' # r" by (simp add: raw)
  moreover from dropWhile_keeps_last [of is_js_space "CHR ''{''" "rev r"] ns obtain ys where
    "dropWhile is_js_space (rev r @ [CHR ''{'']) = ys @ [CHR ''{'']" by blast
  ultimately have "trim raw = CHR ''{'' # rev ys" by (simp add: trim_def)
  then show ?thesis by simp
qed

text \<open>
  C7 (as the code has it).  Take a fragment that the parser rejects, in which the first
  quoted key \<^verbatim>\<open>text\<close> is followed by a colon and a value that is still open at the
  end of the fragment.  The regular expression needs the closing quote, so it extracts
  nothing: when the trimmed fragment starts with a brace the decoder returns the empty
  text (a prefix of any text) with \<^verbatim>\<open>isComplete = false\<close>, and otherwise it returns
  the raw fragment with \<^verbatim>\<open>isComplete = true\<close>.  And a fragment that starts with a
  brace, from which neither the parser nor the regular expression gets a text, gives the
  empty text with \<^verbatim>\<open>isComplete = false\<close>.
\<close>

theorem unclosed_text_decoded:
  assumes "jp rawText = None"
    and "rawText = pre @ text_key @ ws1 @ CHR '':'' # ws2 @ dquote # body"
    and "list_all is_js_space ws1" and "list_all is_js_space ws2"
    and "open_body body"
    and "\<not> str_includes pre text_key_start"
  shows "extractTextFromStreamingJSON jp rawText =
           (if prefix ''{'' (trim rawText)
            then \<lparr>ex_text = JStr [], ex_lang = None, isComplete = False\<rparr>
            else \<lparr>ex_text = JStr rawText, ex_lang = None, isComplete = True\<rparr>) \<and>
         (parsed_envelope jp other = None \<and> textMatch other = None \<and> prefix ''{'' other \<longrightarrow>
            extractTextFromStreamingJSON jp other
              = \<lparr>ex_text = JStr [], ex_lang = None, isComplete = False\<rparr>)"
proof (intro conjI impI)
  have ne: "rawText \<noteq> []" using assms(2) by (simp add: text_key_def)
  have pe: "parsed_envelope jp rawText = None" using assms(1) by (simp add: parsed_envelope_def)
  have tm: "textMatch rawText = None"
    unfolding assms(2) by (rule unclosed_no_match [OF assms(3) assms(4) assms(5) assms(6)])
  show "extractTextFromStreamingJSON jp rawText =
           (if prefix ''{'' (trim rawText)
            then \<lparr>ex_text = JStr [], ex_lang = None, isComplete = False\<rparr>
            else \<lparr>ex_text = JStr rawText, ex_lang = None, isComplete = True\<rparr>)"
    using ne pe tm by (simp add: extractTextFromStreamingJSON_def)
next
  assume o: "parsed_envelope jp other = None \<and> textMatch other = None \<and> prefix ''{'' other"
  then have "prefix ''{'' (trim other)" by (simp add: trim_brace)
  with o show "extractTextFromStreamingJSON jp other
              = \<lparr>ex_text = JStr [], ex_lang = None, isComplete = False\<rparr>"
    by (auto simp: extractTextFromStreamingJSON_def)
qed

lemmas decoder_eval = extractTextFromStreamingJSON_def parsed_envelope_def not_json_def
  textMatch_def match_field_at_def text_key_def dquote_def backslash_def is_line_terminator_def
  trim_def is_js_space_def

text \<open>
  C7 (as the claim states it) fails: a truncated JSON text that does not start with a
  brace is returned as it is, marked complete.
\<close>

theorem array_fragment_complete:
  \<open>extractTextFromStreamingJSON not_json ''[{"text": "Hello''
     = \<lparr>ex_text = JStr ''[{"text": "Hello'', ex_lang = None, isComplete = True\<rparr>\<close>
  by (simp add: decoder_eval)

theorem unclosed_text_decoded_witness:
  \<open>not_json ''{"lang": "en-US", "text": "Hello wor'' = None \<and>
   ''{"lang": "en-US", "text": "Hello wor''
     = ''{"lang": "en-US", '' @ text_key @ [] @ CHR '':'' # '' '' @ dquote # ''Hello wor'' \<and>
   list_all is_js_space '' '' \<and> open_body ''Hello wor'' \<and>
   \<not> str_includes ''{"lang": "en-US", '' text_key_start \<and>
   extractTextFromStreamingJSON not_json ''{"lang": "en-US", "text": "Hello wor''
     = \<lparr>ex_text = JStr [], ex_lang = None, isComplete = False\<rparr> \<and>
   parsed_envelope not_json ''{"lang": "en-US"'' = None \<and>
   textMatch ''{"lang": "en-US"'' = None \<and>
   extractTextFromStreamingJSON not_json ''{"lang": "en-US"''
     = \<lparr>ex_text = JStr [], ex_lang = None, isComplete = False\<rparr>\<close>
proof -
  have main: \<open>extractTextFromStreamingJSON not_json ''{"lang": "en-US", "text": "Hello wor'' =
           (if prefix ''{'' (trim ''{"lang": "en-US", "text": "Hello wor'')
            then \<lparr>ex_text = JStr [], ex_lang = None, isComplete = False\<rparr>
            else \<lparr>ex_text = JStr ''{"lang": "en-US", "text": "Hello wor'', ex_lang = None,
                   isComplete = True\<rparr>) \<and>
         (parsed_envelope not_json ''{"lang": "en-US"'' = None \<and>
          textMatch ''{"lang": "en-US"'' = None \<and> prefix ''{'' ''{"lang": "en-US"'' \<longrightarrow>
            extractTextFromStreamingJSON not_json ''{"lang": "en-US"''
              = \<lparr>ex_text = JStr [], ex_lang = None, isComplete = False\<rparr>)\<close>
    by (rule unclosed_text_decoded [where pre = \<open>''{"lang": "en-US", ''\<close> and ?ws1.0 = "[]"
          and ?ws2.0 = "'' ''" and body = "''Hello wor''"])
       (simp_all add: not_json_def text_key_def dquote_def backslash_def is_js_space_def
          text_key_start_def)
  have h: \<open>not_json ''{"lang": "en-US", "text": "Hello wor'' = None\<close>
    \<open>''{"lang": "en-US", "text": "Hello wor''
     = ''{"lang": "en-US", '' @ text_key @ [] @ CHR '':'' # '' '' @ dquote # ''Hello wor''\<close>
    \<open>list_all is_js_space '' ''\<close> \<open>open_body ''Hello wor''\<close>
    \<open>\<not> str_includes ''{"lang": "en-US", '' text_key_start\<close>
    by (simp_all add: not_json_def text_key_def dquote_def backslash_def is_js_space_def
          text_key_start_def)
  have t: \<open>prefix ''{'' (trim ''{"lang": "en-US", "text": "Hello wor'')\<close>
    by (simp add: trim_def is_js_space_def)
  have o: \<open>parsed_envelope not_json ''{"lang": "en-US"'' = None \<and>
           textMatch ''{"lang": "en-US"'' = None \<and> prefix ''{'' ''{"lang": "en-US"''\<close>
    by (simp add: decoder_eval)
  have r1: \<open>extractTextFromStreamingJSON not_json ''{"lang": "en-US", "text": "Hello wor''
     = \<lparr>ex_text = JStr [], ex_lang = None, isComplete = False\<rparr>\<close>
    using main t by simp
  have r2: \<open>extractTextFromStreamingJSON not_json ''{"lang": "en-US"''
     = \<lparr>ex_text = JStr [], ex_lang = None, isComplete = False\<rparr>\<close>
    using main o by blast
  from h r1 r2 o show ?thesis by blast
qed

end
